theory Spec2Isabelle
  imports Complex_Main "HOL-Library.Multiset" "HOL-Library.AList"
    "HOL-Library.Char_ord" "HOL-Library.List_Lexorder"
begin

section \<open>Python values\<close>

text \<open>
  Floats are modelled as reals: the metric values, z-scores and ranking scores are finite
  floats (NaN and infinite inputs are rejected before they reach the pipeline), and rounding
  is not modelled. The one NaN the detector can make by itself, the median of an empty
  baseline, is a constructor of its own below.

  A \<open>datetime\<close> is the number of microseconds since the epoch (UTC), a \<open>timedelta\<close> a
  number of microseconds.
\<close>

type_synonym datetime = int
type_synonym timedelta = int

definition td_minutes :: "int \<Rightarrow> timedelta" where
  "td_minutes n = n * 60000000"

definition td_hours :: "int \<Rightarrow> timedelta" where
  "td_hours n = n * 3600000000"

definition total_seconds :: "timedelta \<Rightarrow> real" where
  "total_seconds d = real_of_int d / 1000000"

datatype py_error = IndexError | KeyError | ValueError | StoreError



section \<open>Anomaly detector (apps/detector/detector/anomaly\_detector.py)\<close>





















section \<open>Anomaly persistence (apps/detector/detector/job.py)\<close>

text \<open>An anomaly as the grouper reads it, and the row of the \<open>anomalies\<close> table, which has
  two more columns.\<close>

record anomaly =
  a_id :: string
  a_start_ts :: datetime
  a_end_ts :: datetime
  a_service :: string
  a_metric :: string
  a_score :: real

record anomaly_row = anomaly +
  detector :: string
  details_z_score :: real

text \<open>\<open>store_anomaly\<close> on the table, with the identifier that \<open>uuid4\<close> returned. The
  \<open>SELECT\<close> looks for a row of the same service and metric whose \<open>start_ts\<close> lies between
  one minute before and one minute after the new start, bounds included; the activity
  event, the broker message and the grouping that follow an insert do not change the
  table.\<close>

definition store_anomaly ::
  "anomaly_row list \<Rightarrow> string \<Rightarrow> string \<Rightarrow> string \<Rightarrow> datetime \<Rightarrow> datetime \<Rightarrow> real
     \<Rightarrow> anomaly_row list" where
  "store_anomaly table anomaly_id svc metric start_ts end_ts sc =
     (let lower_bound = start_ts - td_minutes 1;
          upper_bound = start_ts + td_minutes 1;
          existing = filter (\<lambda>r. a_service r = svc \<and> a_metric r = metric
                                  \<and> a_start_ts r \<ge> lower_bound \<and> a_start_ts r \<le> upper_bound) table
      in if existing \<noteq> [] then table
         else table @
           [\<lparr> a_id = anomaly_id, a_start_ts = start_ts, a_end_ts = end_ts, a_service = svc,
              a_metric = metric, a_score = sc, detector = ''robust_zscore'',
              details_z_score = sc \<rparr>])"

text \<open>The loop of \<open>check_anomalies\<close> over the detected segments; \<open>uuid4 n\<close> is the \<open>n\<close>-th
  identifier drawn, and every call of \<open>store_anomaly\<close> draws one.\<close>

fun store_anomalies ::
  "(nat \<Rightarrow> string) \<Rightarrow> nat \<Rightarrow> anomaly_row list \<Rightarrow> string \<Rightarrow> string
     \<Rightarrow> (datetime \<times> datetime \<times> real) list \<Rightarrow> anomaly_row list" where
  "store_anomalies uuid4 n table svc metric [] = table"
| "store_anomalies uuid4 n table svc metric ((start_ts, end_ts, sc) # rest) =
     store_anomalies uuid4 (Suc n)
       (store_anomaly table (uuid4 n) svc metric start_ts end_ts sc) svc metric rest"

text \<open>The deduplication invariant (P1) on a table: two rows at different positions with
  the same service and metric start more than 60 seconds apart.\<close>

definition dedup_ok :: "anomaly_row list \<Rightarrow> bool" where
  "dedup_ok table =
     (\<forall>i < length table. \<forall>j < length table.
        i \<noteq> j \<and> a_service (table ! i) = a_service (table ! j)
              \<and> a_metric (table ! i) = a_metric (table ! j)
        \<longrightarrow> \<bar>a_start_ts (table ! i) - a_start_ts (table ! j)\<bar> > 60 * 1000000)"

section \<open>Incident grouper (apps/detector/detector/incident\_grouper.py)\<close>

record incident =
  i_id :: string
  i_start_ts :: datetime
  i_end_ts :: datetime
  i_title :: string
  i_status :: string
  i_anomaly_ids :: "string list"

text \<open>\<open>current_incident\<close> carries two more keys, which the returned incidents drop.\<close>

record current_incident = incident +
  services :: "string set"
  metrics :: "string set"

fun join :: "string \<Rightarrow> string list \<Rightarrow> string" where
  "join sep [] = []"
| "join sep [x] = x"
| "join sep (x # y # ys) = x @ sep @ join sep (y # ys)"

definition new_incident :: "string \<Rightarrow> anomaly \<Rightarrow> current_incident" where
  "new_incident uuid a =
     \<lparr> i_id = uuid, i_start_ts = a_start_ts a, i_end_ts = a_end_ts a,
       i_title = ''Incident in '' @ a_service a, i_status = ''OPEN'',
       i_anomaly_ids = [a_id a], services = {a_service a}, metrics = {a_metric a} \<rparr>"

text \<open>The test of the loop body: the gap in minutes, or a service already in the open
  incident.\<close>

definition joins :: "int \<Rightarrow> current_incident \<Rightarrow> anomaly \<Rightarrow> bool" where
  "joins gap_minutes cur a =
     (let gap = total_seconds (a_start_ts a - i_end_ts cur) / 60
      in gap \<le> real_of_int gap_minutes \<or> a_service a \<in> services cur)"

definition add_to_incident :: "current_incident \<Rightarrow> anomaly \<Rightarrow> current_incident" where
  "add_to_incident cur a =
     (let svcs = insert (a_service a) (services cur)
      in cur\<lparr> i_end_ts := max (i_end_ts cur) (a_end_ts a),
              i_anomaly_ids := i_anomaly_ids cur @ [a_id a],
              services := svcs,
              metrics := insert (a_metric a) (metrics cur),
              i_title := (if card svcs > 1
                          then ''Incident affecting '' @ join '', '' (sorted_list_of_set svcs)
                          else i_title cur) \<rparr>)"

text \<open>The loop state: the closed incidents, the open one, and how many identifiers have
  been drawn.\<close>

record grouper_state =
  g_incidents :: "incident list"
  g_current :: "current_incident option"
  g_drawn :: nat

definition group_step ::
  "(nat \<Rightarrow> string) \<Rightarrow> int \<Rightarrow> grouper_state \<Rightarrow> anomaly \<Rightarrow> grouper_state" where
  "group_step uuid4 gap_minutes st a =
     (case g_current st of
        None \<Rightarrow>
          st\<lparr> g_current := Some (new_incident (uuid4 (g_drawn st)) a),
              g_drawn := Suc (g_drawn st) \<rparr>
      | Some cur \<Rightarrow>
          if joins gap_minutes cur a
          then st\<lparr> g_current := Some (add_to_incident cur a) \<rparr>
          else \<lparr> g_incidents = g_incidents st @ [incident.truncate cur],
                 g_current = Some (new_incident (uuid4 (g_drawn st)) a),
                 g_drawn = Suc (g_drawn st) \<rparr>)"

definition grouper_init :: grouper_state where
  "grouper_init = \<lparr> g_incidents = [], g_current = None, g_drawn = 0 \<rparr>"

text \<open>The incidents a state returns: the closed ones, then the open one.\<close>

definition grouper_result :: "grouper_state \<Rightarrow> incident list" where
  "grouper_result st =
     (case g_current st of
        None \<Rightarrow> g_incidents st
      | Some cur \<Rightarrow> g_incidents st @ [incident.truncate cur])"

definition group_anomalies :: "(nat \<Rightarrow> string) \<Rightarrow> int \<Rightarrow> anomaly list \<Rightarrow> incident list" where
  "group_anomalies uuid4 gap_minutes anoms =
     (if anoms = [] then []
      else grouper_result
             (foldl (group_step uuid4 gap_minutes) grouper_init (sort_key a_start_ts anoms)))"

text \<open>For the proofs: an incident stands for a run \<open>chunk\<close> of consecutive anomalies of
  the sorted input when its ids are the chunk's, its start is the start of the chunk's
  first anomaly, which no anomaly of the chunk precedes, and its status is OPEN.\<close>

definition incident_of_chunk :: "incident \<Rightarrow> anomaly list \<Rightarrow> bool" where
  "incident_of_chunk inc chunk \<longleftrightarrow>
     chunk \<noteq> [] \<and> i_anomaly_ids inc = map a_id chunk \<and> i_status inc = ''OPEN''
     \<and> i_start_ts inc = a_start_ts (hd chunk)
     \<and> (\<forall>x \<in> set chunk. a_start_ts (hd chunk) \<le> a_start_ts x)"

section \<open>Candidate generator (apps/rca/rca/candidate\_generator.py)\<close>

text \<open>The rows of the three change tables; a nullable column is an option. The
  identifiers are the strings that \<open>str(row['id'])\<close> gives.\<close>

record deployment_row =
  dep_id :: string
  dep_ts :: datetime
  dep_service :: string
  dep_commit_sha :: string
  dep_version :: "string option"
  dep_author :: "string option"
  dep_diff_summary :: "string option"
  dep_links :: "string option"

record config_row =
  cfg_id :: string
  cfg_ts :: datetime
  cfg_service :: string
  cfg_key :: string
  cfg_old_value_hash :: "string option"
  cfg_new_value_hash :: "string option"
  cfg_diff_summary :: "string option"
  cfg_source :: "string option"

record flag_row =
  flag_id :: string
  flag_ts :: datetime
  flag_name :: string
  flag_service :: "string option"
  flag_old_state :: "string option"
  flag_new_state :: "string option"

record change_catalog =
  deployments :: "deployment_row list"
  config_changes :: "config_row list"
  feature_flag_changes :: "flag_row list"

text \<open>A candidate dict. The generator writes the first five keys; the worker adds
  \<open>evidence\<close>, which is \<open>None\<close> while the key is absent. A dict is an association list in
  insertion order with distinct keys; a metadata value is \<open>None\<close> where the column was
  NULL.\<close>

record candidate =
  suspect_type :: string
  suspect_key :: string
  ts :: datetime
  service :: "string option"
  metadata :: "(string \<times> string option) list"
  evidence :: "(string \<times> real) list option"

record CandidateGenerator =
  lookback_hours :: int
  lookforward_hours :: int

text \<open>The three queries: the rows in the window, bounds included, of an affected service
  (or, for a flag, of no service), latest first. Where two rows have the same \<open>ts\<close> SQL
  leaves their order open; the model keeps the table's.\<close>

definition get_deployments ::
  "change_catalog \<Rightarrow> datetime \<Rightarrow> datetime \<Rightarrow> string list \<Rightarrow> candidate list" where
  "get_deployments pool window_start window_end affected_services =
     map (\<lambda>row. \<lparr> suspect_type = ''DEPLOYMENT'', suspect_key = dep_id row, ts = dep_ts row,
                   service = Some (dep_service row),
                   metadata = [(''commit_sha'', Some (dep_commit_sha row)),
                               (''version'', dep_version row),
                               (''author'', dep_author row),
                               (''diff_summary'', dep_diff_summary row),
                               (''links'', dep_links row)],
                   evidence = None \<rparr>)
       (sort_key (\<lambda>row. - dep_ts row)
          (filter (\<lambda>row. dep_ts row \<ge> window_start \<and> dep_ts row \<le> window_end
                          \<and> dep_service row \<in> set affected_services)
             (deployments pool)))"

definition get_config_changes ::
  "change_catalog \<Rightarrow> datetime \<Rightarrow> datetime \<Rightarrow> string list \<Rightarrow> candidate list" where
  "get_config_changes pool window_start window_end affected_services =
     map (\<lambda>row. \<lparr> suspect_type = ''CONFIG'', suspect_key = cfg_id row, ts = cfg_ts row,
                   service = Some (cfg_service row),
                   metadata = [(''key'', Some (cfg_key row)),
                               (''old_value_hash'', cfg_old_value_hash row),
                               (''new_value_hash'', cfg_new_value_hash row),
                               (''diff_summary'', cfg_diff_summary row),
                               (''source'', cfg_source row)],
                   evidence = None \<rparr>)
       (sort_key (\<lambda>row. - cfg_ts row)
          (filter (\<lambda>row. cfg_ts row \<ge> window_start \<and> cfg_ts row \<le> window_end
                          \<and> cfg_service row \<in> set affected_services)
             (config_changes pool)))"

definition get_flag_changes ::
  "change_catalog \<Rightarrow> datetime \<Rightarrow> datetime \<Rightarrow> string list \<Rightarrow> candidate list" where
  "get_flag_changes pool window_start window_end affected_services =
     map (\<lambda>row. \<lparr> suspect_type = ''FLAG'', suspect_key = flag_id row, ts = flag_ts row,
                   service = flag_service row,
                   metadata = [(''flag_name'', Some (flag_name row)),
                               (''old_state'', flag_old_state row),
                               (''new_state'', flag_new_state row)],
                   evidence = None \<rparr>)
       (sort_key (\<lambda>row. - flag_ts row)
          (filter (\<lambda>row. flag_ts row \<ge> window_start \<and> flag_ts row \<le> window_end
                          \<and> (case flag_service row of None \<Rightarrow> True
                              | Some svc \<Rightarrow> svc \<in> set affected_services))
             (feature_flag_changes pool)))"

definition service_fallback :: "datetime \<Rightarrow> string \<Rightarrow> candidate" where
  "service_fallback incident_start svc =
     \<lparr> suspect_type = ''SERVICE'', suspect_key = ''service_'' @ svc,
       ts = incident_start - td_minutes 30, service = Some svc,
       metadata = [(''reason'',
          Some ''No deployments/config changes found, analyzing service behavior'')],
       evidence = None \<rparr>"

definition generate_candidates ::
  "CandidateGenerator \<Rightarrow> change_catalog \<Rightarrow> datetime \<Rightarrow> datetime \<Rightarrow> string list
     \<Rightarrow> candidate list" where
  "generate_candidates self pool incident_start incident_end affected_services =
     (let window_start = incident_start - td_hours (lookback_hours self);
          window_end = incident_end + td_hours (lookforward_hours self);
          candidates = get_deployments pool window_start window_end affected_services
                     @ get_config_changes pool window_start window_end affected_services
                     @ get_flag_changes pool window_start window_end affected_services
      in if candidates = [] \<and> affected_services \<noteq> []
         then candidates @ map (service_fallback incident_start) affected_services
         else candidates)"

section \<open>Feature extractor (apps/rca/rca/feature\_extractor.py)\<close>

text \<open>\<open>d.update(e)\<close> on association lists: a key already present keeps its place and takes
  the new value, a new key goes to the end.\<close>

definition dict_update :: "('k \<times> 'v) list \<Rightarrow> ('k \<times> 'v) list \<Rightarrow> ('k \<times> 'v) list" where
  "dict_update d e = foldl (\<lambda>acc kv. AList.update (fst kv) (snd kv) acc) d e"

text \<open>What the metric and log store answers to the three shapes of query the extractor
  sends: the per-metric averages and the count of ERROR entries of a service between two
  formatted timestamps (the flag says whether the upper bound is included), and the count
  of ERROR entries with event DB\_TIMEOUT. A count query returns rows of one column. Each
  call may raise.\<close>

record clickhouse_client =
  metric_averages :: "string \<Rightarrow> int \<Rightarrow> int \<Rightarrow> bool \<Rightarrow> py_error + (string \<times> real) list"
  error_count :: "string \<Rightarrow> int \<Rightarrow> int \<Rightarrow> bool \<Rightarrow> py_error + int list"
  db_timeout_count :: "string \<Rightarrow> int \<Rightarrow> int \<Rightarrow> py_error + int list"

text \<open>\<open>_format_clickhouse_ts\<close> prints the time to the second; the model keeps the number
  of whole seconds.\<close>

definition format_clickhouse_ts :: "datetime \<Rightarrow> int" where
  "format_clickhouse_ts dt = dt div 1000000"

definition extract_time_features :: "candidate \<Rightarrow> datetime \<Rightarrow> (string \<times> real) list" where
  "extract_time_features c incident_start =
     (let minutes_before = total_seconds (incident_start - ts c) / 60
      in [(''minutes_before_incident'', minutes_before),
          (''is_before_incident'', if minutes_before \<ge> 0 then 1 else 0),
          (''time_proximity_score'', max 0 (1 - \<bar>minutes_before\<bar> / 60))])"

definition metric_deltas :: "(string \<times> real) list \<Rightarrow> (string \<times> real) list \<Rightarrow> real list" where
  "metric_deltas before_metrics after_metrics =
     concat (map (\<lambda>(metric, before_val).
                    case map_of after_metrics metric of
                      None \<Rightarrow> []
                    | Some after_val \<Rightarrow>
                        if before_val > 0 then [\<bar>after_val - before_val\<bar> / before_val] else [])
               before_metrics)"

definition extract_correlation_features ::
  "candidate \<Rightarrow> datetime \<Rightarrow> datetime \<Rightarrow> string list \<Rightarrow> clickhouse_client
     \<Rightarrow> (string \<times> real) list" where
  "extract_correlation_features c incident_start incident_end affected_services client =
     (if suspect_type c \<noteq> ''DEPLOYMENT''
      then [(''metric_delta_count'', 0), (''max_metric_delta'', 0)]
      else
        (case service c of
           None \<Rightarrow> [(''metric_delta_count'', 0), (''max_metric_delta'', 0)]
         | Some svc \<Rightarrow>
             if svc \<notin> set affected_services
             then [(''metric_delta_count'', 0), (''max_metric_delta'', 0)]
             else
               (case metric_averages client svc
                       (format_clickhouse_ts (ts c - td_minutes 10))
                       (format_clickhouse_ts (ts c)) False of
                  Inl e \<Rightarrow> [(''metric_delta_count'', 0), (''max_metric_delta'', 0),
                             (''avg_metric_delta'', 0)]
                | Inr before_results \<Rightarrow>
                    (case metric_averages client svc
                            (format_clickhouse_ts (ts c))
                            (format_clickhouse_ts incident_end) True of
                       Inl e \<Rightarrow> [(''metric_delta_count'', 0), (''max_metric_delta'', 0),
                                  (''avg_metric_delta'', 0)]
                     | Inr after_results \<Rightarrow>
                         (let deltas = metric_deltas (dict_update [] before_results)
                                         (dict_update [] after_results)
                          in if deltas \<noteq> []
                             then [(''metric_delta_count'', real (length deltas)),
                                   (''max_metric_delta'', fold max (tl deltas) (hd deltas)),
                                   (''avg_metric_delta'', sum_list deltas / real (length deltas))]
                             else [(''metric_delta_count'', 0), (''max_metric_delta'', 0),
                                   (''avg_metric_delta'', 0)])))))"

text \<open>\<open>rows[0][0] if rows else 0\<close>.\<close>

definition first_count :: "int list \<Rightarrow> int" where
  "first_count rows = (case rows of [] \<Rightarrow> 0 | n # _ \<Rightarrow> n)"

definition extract_log_features ::
  "candidate \<Rightarrow> datetime \<Rightarrow> datetime \<Rightarrow> clickhouse_client \<Rightarrow> (string \<times> real) list" where
  "extract_log_features c incident_start incident_end client =
     (if suspect_type c \<noteq> ''DEPLOYMENT''
      then [(''error_log_delta'', 0), (''new_error_signature'', 0)]
      else
        (let svc = (case service c of None \<Rightarrow> ''None'' | Some n \<Rightarrow> n);
             t0 = format_clickhouse_ts (ts c - td_minutes 10);
             t1 = format_clickhouse_ts (ts c);
             t2 = format_clickhouse_ts incident_end
         in case error_count client svc t0 t1 False of
              Inl e \<Rightarrow> [(''error_log_delta'', 0), (''new_error_signature'', 0)]
            | Inr before_count \<Rightarrow>
                (case error_count client svc t1 t2 True of
                   Inl e \<Rightarrow> [(''error_log_delta'', 0), (''new_error_signature'', 0)]
                 | Inr after_count \<Rightarrow>
                     (let before_errors = first_count before_count;
                          after_errors = first_count after_count;
                          error_delta = real_of_int (after_errors - before_errors)
                                        / real_of_int (max before_errors 1)
                      in case db_timeout_count client svc t1 t2 of
                           Inl e \<Rightarrow> [(''error_log_delta'', 0), (''new_error_signature'', 0)]
                         | Inr new_error_count \<Rightarrow>
                             [(''error_log_delta'', error_delta),
                              (''new_error_signature'',
                                 if new_error_count \<noteq> [] \<and> first_count new_error_count > 0
                                 then 1 else 0)]))))"

definition diff_keywords :: "string list" where
  "diff_keywords =
     [''timeout'', ''retry'', ''cache'', ''db'', ''database'', ''connection'', ''pool'']"

text \<open>\<open>str.lower\<close> on ASCII text, and the substring test \<open>keyword in diff_lower\<close>.\<close>

definition lower_char :: "char \<Rightarrow> char" where
  "lower_char ch =
     (if CHR ''A'' \<le> ch \<and> ch \<le> CHR ''Z'' then char_of (of_char ch + (32 :: nat)) else ch)"

definition lower :: "string \<Rightarrow> string" where
  "lower s = map lower_char s"

fun contains :: "string \<Rightarrow> string \<Rightarrow> bool" where
  "contains [] kw = (kw = [])"
| "contains (ch # rest) kw = (take (length kw) (ch # rest) = kw \<or> contains rest kw)"

text \<open>\<open>candidate.get('metadata', {}).get('diff_summary', '')\<close>, then the test
  \<open>not diff_summary\<close>, true of \<open>None\<close> and of the empty string.\<close>

definition extract_diff_features :: "candidate \<Rightarrow> (string \<times> real) list" where
  "extract_diff_features c =
     (let diff_summary = (case map_of (metadata c) ''diff_summary'' of
                            None \<Rightarrow> Some []
                          | Some v \<Rightarrow> v)
      in case diff_summary of
           None \<Rightarrow> [(''diff_length'', 0), (''diff_keyword_hit'', 0)]
         | Some d \<Rightarrow>
             if d = [] then [(''diff_length'', 0), (''diff_keyword_hit'', 0)]
             else
               (let diff_lower = lower d;
                    keyword_hits = length (filter (contains diff_lower) diff_keywords)
                in [(''diff_length'', real (length d)),
                    (''diff_keyword_hit'', if keyword_hits > 0 then 1 else 0),
                    (''diff_keyword_count'', real keyword_hits)]))"

text \<open>The count query of \<open>_extract_historical_features\<close>, as the answer of the store for a
  service: it may raise, and \<open>fetchval\<close> may return \<open>None\<close>.\<close>

definition extract_historical_features ::
  "candidate \<Rightarrow> (string \<Rightarrow> py_error + int option) \<Rightarrow> (string \<times> real) list" where
  "extract_historical_features c incident_count_30d =
     (case service c of
        None \<Rightarrow> [(''service_incident_rate_30d'', 0)]
      | Some svc \<Rightarrow>
          if svc = [] then [(''service_incident_rate_30d'', 0)]
          else
            (case incident_count_30d svc of
               Inl e \<Rightarrow> [(''service_incident_rate_30d'', 0)]
             | Inr None \<Rightarrow> [(''service_incident_rate_30d'', 0)]
             | Inr (Some n) \<Rightarrow> [(''service_incident_rate_30d'', real_of_int n)]))"

definition extract_features ::
  "candidate \<Rightarrow> datetime \<Rightarrow> datetime \<Rightarrow> string list \<Rightarrow> clickhouse_client
     \<Rightarrow> (string \<Rightarrow> py_error + int option) \<Rightarrow> (string \<times> real) list" where
  "extract_features c incident_start incident_end affected_services client incident_count_30d =
     dict_update
       (dict_update
          (dict_update
             (dict_update
                (dict_update [] (extract_time_features c incident_start))
                (extract_correlation_features c incident_start incident_end
                   affected_services client))
             (extract_log_features c incident_start incident_end client))
          (extract_diff_features c))
       (extract_historical_features c incident_count_30d)"

text \<open>The twelve feature names of the contract, in its order.\<close>

definition contract_feature_names :: "string list" where
  "contract_feature_names =
     [''minutes_before_incident'', ''is_before_incident'', ''time_proximity_score'',
      ''metric_delta_count'', ''max_metric_delta'', ''avg_metric_delta'',
      ''error_log_delta'', ''new_error_signature'', ''diff_length'', ''diff_keyword_hit'',
      ''diff_keyword_count'', ''service_incident_rate_30d'']"

section \<open>Rankers (apps/rca/rca/ranker.py, apps/rca/rca/ml\_ranker.py)\<close>

text \<open>\<open>evidence.get(name, default)\<close>.\<close>

definition ev_get :: "(string \<times> real) list \<Rightarrow> string \<Rightarrow> real \<Rightarrow> real" where
  "ev_get ev name dflt = (case map_of ev name of None \<Rightarrow> dflt | Some v \<Rightarrow> v)"

definition compute_score :: "(string \<times> real) list \<Rightarrow> real" where
  "compute_score ev =
     (let score = 0;
          is_before = ev_get ev ''is_before_incident'' 0;
          score = score + 3 * is_before;
          score = (if is_before > 0
                   then (let minutes_before = ev_get ev ''minutes_before_incident'' 60;
                             time_decay = exp (- \<bar>minutes_before\<bar> / 30)
                         in score + 2 * time_decay)
                   else score);
          max_delta = ev_get ev ''max_metric_delta'' 0;
          normalized_delta = min 1 max_delta;
          score = score + 25 / 10 * normalized_delta;
          error_delta = ev_get ev ''error_log_delta'' 0;
          normalized_log = min 1 (max 0 (error_delta / 10));
          score = score + 2 * normalized_log;
          new_error = ev_get ev ''new_error_signature'' 0;
          score = score + 15 / 10 * new_error;
          keyword_hit = ev_get ev ''diff_keyword_hit'' 0;
          score = score + 1 * keyword_hit
      in score)"

text \<open>The heuristic score as the specification writes it, with the time-decay term
  only when \<open>is_before_incident = 1\<close>.\<close>

definition spec_heuristic_score :: "(string \<times> real) list \<Rightarrow> real" where
  "spec_heuristic_score ev =
     3 * ev_get ev ''is_before_incident'' 0
     + (if ev_get ev ''is_before_incident'' 0 = 1
        then 2 * exp (- \<bar>ev_get ev ''minutes_before_incident'' 60\<bar> / 30) else 0)
     + 25 / 10 * min 1 (ev_get ev ''max_metric_delta'' 0)
     + 2 * min 1 (max 0 (ev_get ev ''error_log_delta'' 0 / 10))
     + 15 / 10 * ev_get ev ''new_error_signature'' 0
     + 1 * ev_get ev ''diff_keyword_hit'' 0"

text \<open>A ranked candidate: the candidate's keys with \<open>score\<close> and \<open>rank\<close> added.\<close>

record ranked = candidate +
  score :: real
  rank :: nat

text \<open>The common tail of both rankers, on the candidates paired with their scores:
  \<open>scored.sort(key=score, reverse=True)\<close>, a stable sort in which elements of equal score
  keep their order, then \<open>rank = i + 1\<close> in the sorted order.\<close>

definition rank_scored :: "(candidate \<times> real) list \<Rightarrow> ranked list" where
  "rank_scored scored =
     map (\<lambda>(i, (c, s)). candidate.extend c (ranked.fields s (i + 1)))
       (enumerate 0 (sort_key (\<lambda>x. - snd x) scored))"

text \<open>\<open>candidate.get('evidence', {})\<close>.\<close>

definition evidence_of :: "candidate \<Rightarrow> (string \<times> real) list" where
  "evidence_of c = (case evidence c of None \<Rightarrow> [] | Some ev \<Rightarrow> ev)"

definition HeuristicRanker_rank :: "candidate list \<Rightarrow> ranked list" where
  "HeuristicRanker_rank candidates =
     rank_scored (map (\<lambda>c. (c, compute_score (evidence_of c))) candidates)"

text \<open>The learned ranker. The loaded model is its \<open>predict_proba\<close>: from the feature matrix
  to the matrix of class probabilities, given as \<open>shape[1]\<close> and the rows (each of
  \<open>shape[1]\<close> entries), or an exception.\<close>

record MLRanker =
  model :: "(real list list \<Rightarrow> py_error + nat \<times> real list list) option"
  feature_names :: "string list option"

definition default_feature_names :: "string list" where
  "default_feature_names =
     [''is_before_incident'', ''time_proximity_score'', ''minutes_before_incident'',
      ''metric_delta_count'', ''max_metric_delta'', ''avg_metric_delta'',
      ''error_log_delta'', ''new_error_signature'', ''diff_keyword_hit'',
      ''diff_keyword_count'', ''service_incident_rate_30d'']"

definition ml_extract_features :: "MLRanker \<Rightarrow> (string \<times> real) list \<Rightarrow> real list" where
  "ml_extract_features self ev =
     map (\<lambda>name. ev_get ev name 0)
       (case feature_names self of None \<Rightarrow> default_feature_names | Some names \<Rightarrow> names)"

text \<open>\<open>probabilities[:, 1] if probabilities.shape[1] > 1 else probabilities[:, 0]\<close>.\<close>

definition positive_class_scores :: "nat \<times> real list list \<Rightarrow> py_error + real list" where
  "positive_class_scores probabilities =
     (let ncols = fst probabilities; col = (if ncols > 1 then 1 else 0)
      in if col < ncols then Inr (map (\<lambda>row. row ! col) (snd probabilities))
         else Inl IndexError)"

text \<open>The loop that reads \<open>scores[i]\<close> for every candidate.\<close>

fun attach_scores :: "candidate list \<Rightarrow> real list \<Rightarrow> py_error + (candidate \<times> real) list" where
  "attach_scores [] scores = Inr []"
| "attach_scores (c # cs) [] = Inl IndexError"
| "attach_scores (c # cs) (s # ss) =
     (case attach_scores cs ss of Inl e \<Rightarrow> Inl e | Inr scored \<Rightarrow> Inr ((c, s) # scored))"

definition MLRanker_rank :: "MLRanker \<Rightarrow> candidate list \<Rightarrow> py_error + ranked list" where
  "MLRanker_rank self candidates =
     (case model self of
        None \<Rightarrow> Inr (HeuristicRanker_rank candidates)
      | Some predict_proba \<Rightarrow>
          (case predict_proba (map (\<lambda>c. ml_extract_features self (evidence_of c)) candidates) of
             Inl e \<Rightarrow> Inl e
           | Inr probabilities \<Rightarrow>
               (case positive_class_scores probabilities of
                  Inl e \<Rightarrow> Inl e
                | Inr scores \<Rightarrow>
                    (case attach_scores candidates scores of
                       Inl e \<Rightarrow> Inl e
                     | Inr scored \<Rightarrow> Inr (rank_scored scored)))))"

section \<open>Suspect persistence (apps/rca/rca/job.py)\<close>

text \<open>A row of the \<open>suspects\<close> table; the evidence column holds the feature map.\<close>

record suspect_row =
  s_id :: string
  s_incident_id :: string
  s_suspect_type :: string
  s_suspect_key :: string
  s_rank :: nat
  s_score :: real
  s_evidence :: "(string \<times> real) list"

text \<open>\<open>_store_suspects\<close> runs its statements on a connection taken from the pool, with no
  transaction block around them, so each statement takes effect on the table as it is
  executed. The model is the table after the call, with the exception that ended it, if
  any. Taking the connection or the DELETE may raise (\<open>delete_fails\<close>): then nothing has
  been executed and the table is as it was. An insert fails before it reaches the store
  when the suspect has no \<open>evidence\<close> key (\<open>suspect['evidence']\<close> raises), and in the store
  when the store rejects the row (\<open>rejects\<close>: a constraint, a lost connection).\<close>

fun insert_suspects ::
  "(suspect_row \<Rightarrow> bool) \<Rightarrow> (nat \<Rightarrow> string) \<Rightarrow> nat \<Rightarrow> string \<Rightarrow> suspect_row list
     \<Rightarrow> ranked list \<Rightarrow> suspect_row list \<times> py_error option" where
  "insert_suspects rejects uuid4 n incident_id table [] = (table, None)"
| "insert_suspects rejects uuid4 n incident_id table (suspect # rest) =
     (case evidence suspect of
        None \<Rightarrow> (table, Some KeyError)
      | Some ev \<Rightarrow>
          (let row = \<lparr> s_id = uuid4 n, s_incident_id = incident_id,
                       s_suspect_type = suspect_type suspect,
                       s_suspect_key = suspect_key suspect,
                       s_rank = rank suspect, s_score = score suspect, s_evidence = ev \<rparr>
           in if rejects row then (table, Some StoreError)
              else insert_suspects rejects uuid4 (Suc n) incident_id (table @ [row]) rest))"

definition store_suspects ::
  "bool \<Rightarrow> (suspect_row \<Rightarrow> bool) \<Rightarrow> (nat \<Rightarrow> string) \<Rightarrow> nat \<Rightarrow> suspect_row list \<Rightarrow> string
     \<Rightarrow> ranked list \<Rightarrow> suspect_row list \<times> py_error option" where
  "store_suspects delete_fails rejects uuid4 n table incident_id ranked_list =
     (if delete_fails then (table, Some StoreError)
      else insert_suspects rejects uuid4 n incident_id
             (filter (\<lambda>r. s_incident_id r \<noteq> incident_id) table) ranked_list)"

text \<open>The rows that the inserts of a call write for a list of suspects, the \<open>i\<close>-th with
  the \<open>i\<close>-th identifier drawn.\<close>

definition suspect_rows ::
  "(nat \<Rightarrow> string) \<Rightarrow> nat \<Rightarrow> string \<Rightarrow> ranked list \<Rightarrow> suspect_row list" where
  "suspect_rows uuid4 n incident_id ranked_list =
     map (\<lambda>(i, suspect).
            \<lparr> s_id = uuid4 i, s_incident_id = incident_id,
              s_suspect_type = suspect_type suspect, s_suspect_key = suspect_key suspect,
              s_rank = rank suspect, s_score = score suspect,
              s_evidence = evidence_of (candidate.truncate suspect) \<rparr>)
       (enumerate n ranked_list)"

text \<open>The insert of the \<open>i\<close>-th suspect of the list fails: the suspect has no evidence, or
  the store rejects its row.\<close>

definition insert_fails ::
  "(suspect_row \<Rightarrow> bool) \<Rightarrow> (nat \<Rightarrow> string) \<Rightarrow> nat \<Rightarrow> string \<Rightarrow> ranked list \<Rightarrow> nat \<Rightarrow> bool"
  where
  "insert_fails rejects uuid4 n incident_id ranked_list i \<longleftrightarrow>
     evidence (ranked_list ! i) = None
     \<or> rejects (suspect_rows uuid4 n incident_id ranked_list ! i)"

section \<open>The detector on a flat baseline\<close>
























section \<open>The heuristic score\<close>

lemma map_of_dict_update_other:
  "k \<notin> fst ` set e \<Longrightarrow> map_of (dict_update d e) k = map_of d k"
  unfolding dict_update_def
  by (induction e arbitrary: d) (auto simp: update_conv')

lemma correlation_feature_keys:
  "fst ` set (extract_correlation_features c s e svcs client)
     \<subseteq> {''metric_delta_count'', ''max_metric_delta'', ''avg_metric_delta''}"
  by (simp add: extract_correlation_features_def Let_def split: option.split sum.split)

lemma log_feature_keys:
  "fst ` set (extract_log_features c s e client)
     \<subseteq> {''error_log_delta'', ''new_error_signature''}"
  by (simp add: extract_log_features_def Let_def split: option.split sum.split)

lemma diff_feature_keys:
  "fst ` set (extract_diff_features c)
     \<subseteq> {''diff_length'', ''diff_keyword_hit'', ''diff_keyword_count''}"
  by (simp add: extract_diff_features_def Let_def split: option.split)

lemma historical_feature_keys:
  "fst ` set (extract_historical_features c cnt) \<subseteq> {''service_incident_rate_30d''}"
  by (simp add: extract_historical_features_def split: option.split sum.split)

lemma extract_features_is_before:
  "map_of (extract_features c s e svcs client cnt) ''is_before_incident''
     = Some (if total_seconds (s - ts c) / 60 \<ge> 0 then 1 else 0)"
proof -
  have k1: "''is_before_incident'' \<notin> fst ` set (extract_correlation_features c s e svcs client)"
    using correlation_feature_keys[of c s e svcs client] by auto
  have k2: "''is_before_incident'' \<notin> fst ` set (extract_log_features c s e client)"
    using log_feature_keys[of c s e client] by auto
  have k3: "''is_before_incident'' \<notin> fst ` set (extract_diff_features c)"
    using diff_feature_keys[of c] by auto
  have k4: "''is_before_incident'' \<notin> fst ` set (extract_historical_features c cnt)"
    using historical_feature_keys[of c cnt] by auto
  have "map_of (extract_features c s e svcs client cnt) ''is_before_incident''
          = map_of (dict_update [] (extract_time_features c s)) ''is_before_incident''"
    unfolding extract_features_def
    by (simp only: map_of_dict_update_other[OF k1] map_of_dict_update_other[OF k2]
        map_of_dict_update_other[OF k3] map_of_dict_update_other[OF k4])
  also have "\<dots> = Some (if total_seconds (s - ts c) / 60 \<ge> 0 then 1 else 0)"
    by (simp add: extract_time_features_def dict_update_def Let_def)
  finally show ?thesis .
qed

text \<open>
  C3. The heuristic score equals 3 * is\_before\_incident, plus
  2 * exp(-|minutes\_before\_incident| / 30) only when is\_before\_incident = 1, plus
  2.5 * min(1, max\_metric\_delta), plus 2 * clamp(error\_log\_delta / 10, 0, 1), plus
  1.5 * new\_error\_signature, plus diff\_keyword\_hit, an absent feature counting as 0
  (minutes\_before\_incident as 60). This holds of every evidence map in which
  is\_before\_incident is 0, 1 or absent, and so of every map that \<open>extract_features\<close>
  returns, which are the maps the rankers are given.
\<close>

theorem compute_score_matches_spec:
  "(ev_get ev ''is_before_incident'' 0 = 0 \<or> ev_get ev ''is_before_incident'' 0 = 1
      \<longrightarrow> compute_score ev = spec_heuristic_score ev)
   \<and> compute_score (extract_features c incident_start incident_end affected_services client
                      incident_count_30d)
     = spec_heuristic_score (extract_features c incident_start incident_end affected_services
                               client incident_count_30d)"
proof -
  have gen: "compute_score ev' = spec_heuristic_score ev'"
    if "ev_get ev' ''is_before_incident'' 0 = 0 \<or> ev_get ev' ''is_before_incident'' 0 = 1"
    for ev'
    using that by (auto simp: compute_score_def spec_heuristic_score_def Let_def)
  have "ev_get (extract_features c incident_start incident_end affected_services client
                  incident_count_30d) ''is_before_incident'' 0 = 0
      \<or> ev_get (extract_features c incident_start incident_end affected_services client
                  incident_count_30d) ''is_before_incident'' 0 = 1"
    by (simp add: ev_get_def extract_features_is_before)
  then show ?thesis using gen by blast
qed

text \<open>The theorem on an evidence map with is\_before\_incident = 1.\<close>

theorem compute_score_matches_spec_witness:
  "compute_score [(''is_before_incident'', 1), (''minutes_before_incident'', 0),
                  (''max_metric_delta'', 2), (''error_log_delta'', 5)]
   = spec_heuristic_score [(''is_before_incident'', 1), (''minutes_before_incident'', 0),
                  (''max_metric_delta'', 2), (''error_log_delta'', 5)]
   \<and> spec_heuristic_score [(''is_before_incident'', 1), (''minutes_before_incident'', 0),
                  (''max_metric_delta'', 2), (''error_log_delta'', 5)] = 17 / 2"
proof -
  let ?ev = "[(''is_before_incident'', 1 :: real), (''minutes_before_incident'', 0),
              (''max_metric_delta'', 2), (''error_log_delta'', 5)]"
  have h: "ev_get ?ev ''is_before_incident'' 0 = 0 \<or> ev_get ?ev ''is_before_incident'' 0 = 1"
    by (simp add: ev_get_def)
  from compute_score_matches_spec [of ?ev] h
  have "compute_score ?ev = spec_heuristic_score ?ev" by blast
  moreover have "spec_heuristic_score ?ev = 17 / 2"
    by (simp add: spec_heuristic_score_def ev_get_def)
  ultimately show ?thesis by simp
qed

section \<open>The candidate generator's fallback\<close>


lemma get_deployments_type:
  "c \<in> set (get_deployments pool ws we svcs) \<Longrightarrow> suspect_type c = ''DEPLOYMENT''"
  by (auto simp: get_deployments_def)

lemma get_config_changes_type:
  "c \<in> set (get_config_changes pool ws we svcs) \<Longrightarrow> suspect_type c = ''CONFIG''"
  by (auto simp: get_config_changes_def)

lemma get_flag_changes_type:
  "c \<in> set (get_flag_changes pool ws we svcs) \<Longrightarrow> suspect_type c = ''FLAG''"
  by (auto simp: get_flag_changes_def)

text \<open>
  C6. With the window from \<open>incident.start - lookback_hours\<close> to
  \<open>incident.end + lookforward_hours\<close>: when the three queries return no rows and
  \<open>affected_services\<close> is non-empty, the generator returns one SERVICE candidate per
  affected service, in order, with key \<open>service_<name>\<close> and \<open>ts\<close> thirty minutes before the
  incident start; when a query returns a row, the result is the rows and none of them is a
  SERVICE candidate.
\<close>

theorem generate_candidates_fallback:
  fixes self pool incident_start incident_end affected_services
  defines "window_start \<equiv> incident_start - td_hours (lookback_hours self)"
    and "window_end \<equiv> incident_end + td_hours (lookforward_hours self)"
  defines "rows \<equiv> get_deployments pool window_start window_end affected_services
                 @ get_config_changes pool window_start window_end affected_services
                 @ get_flag_changes pool window_start window_end affected_services"
  defines "out \<equiv> generate_candidates self pool incident_start incident_end affected_services"
  shows "(rows = [] \<and> affected_services \<noteq> [] \<longrightarrow>
            length out = length affected_services
            \<and> (\<forall>i < length affected_services.
                  suspect_type (out ! i) = ''SERVICE''
                  \<and> suspect_key (out ! i) = ''service_'' @ affected_services ! i
                  \<and> service (out ! i) = Some (affected_services ! i)
                  \<and> ts (out ! i) = incident_start - 30 * 60 * 1000000))
       \<and> (rows \<noteq> [] \<longrightarrow> out = rows \<and> (\<forall>c \<in> set out. suspect_type c \<noteq> ''SERVICE''))"
proof (intro conjI impI)
  assume h: "rows = [] \<and> affected_services \<noteq> []"
  then have out: "out = map (service_fallback incident_start) affected_services"
    unfolding out_def rows_def window_start_def window_end_def
    by (simp add: generate_candidates_def Let_def)
  show "length out = length affected_services" by (simp add: out)
  show "\<forall>i < length affected_services.
          suspect_type (out ! i) = ''SERVICE''
          \<and> suspect_key (out ! i) = ''service_'' @ affected_services ! i
          \<and> service (out ! i) = Some (affected_services ! i)
          \<and> ts (out ! i) = incident_start - 30 * 60 * 1000000"
    by (simp add: out service_fallback_def td_minutes_def)
next
  assume h: "rows \<noteq> []"
  then show out: "out = rows"
    unfolding out_def rows_def window_start_def window_end_def
    by (auto simp: generate_candidates_def Let_def)
  show "\<forall>c \<in> set out. suspect_type c \<noteq> ''SERVICE''"
    unfolding out rows_def
    by (auto dest: get_deployments_type get_config_changes_type get_flag_changes_type)
qed



text \<open>The theorem on an empty catalog, and on a catalog with one deployment in the
  window.\<close>

theorem generate_candidates_fallback_witness:
  "length (generate_candidates \<lparr> lookback_hours = 2, lookforward_hours = 0 \<rparr>
       \<lparr> deployments = [], config_changes = [], feature_flag_changes = [] \<rparr>
       10000000000 10600000000 [''mock-service'']) = 1
   \<and> suspect_key (generate_candidates \<lparr> lookback_hours = 2, lookforward_hours = 0 \<rparr>
       \<lparr> deployments = [], config_changes = [], feature_flag_changes = [] \<rparr>
       10000000000 10600000000 [''mock-service''] ! 0) = ''service_mock-service''
   \<and> ts (generate_candidates \<lparr> lookback_hours = 2, lookforward_hours = 0 \<rparr>
       \<lparr> deployments = [], config_changes = [], feature_flag_changes = [] \<rparr>
       10000000000 10600000000 [''mock-service''] ! 0) = 8200000000
   \<and> map suspect_type (generate_candidates \<lparr> lookback_hours = 2, lookforward_hours = 0 \<rparr>
       \<lparr> deployments = [\<lparr> dep_id = ''d1'', dep_ts = 9000000000, dep_service = ''mock-service'',
                            dep_commit_sha = ''abc'', dep_version = None, dep_author = None,
                            dep_diff_summary = None, dep_links = None \<rparr>],
         config_changes = [], feature_flag_changes = [] \<rparr>
       10000000000 10600000000 [''mock-service'']) = [''DEPLOYMENT'']"
  using generate_candidates_fallback
      [of "\<lparr> deployments = [], config_changes = [], feature_flag_changes = [] \<rparr>"
          10000000000 "\<lparr> lookback_hours = 2, lookforward_hours = 0 \<rparr>" 10600000000
          "[''mock-service'']"]
    generate_candidates_fallback
      [of "\<lparr> deployments = [\<lparr> dep_id = ''d1'', dep_ts = 9000000000,
                            dep_service = ''mock-service'',
                            dep_commit_sha = ''abc'', dep_version = None, dep_author = None,
                            dep_diff_summary = None, dep_links = None \<rparr>],
             config_changes = [], feature_flag_changes = [] \<rparr>"
          10000000000 "\<lparr> lookback_hours = 2, lookforward_hours = 0 \<rparr>" 10600000000
          "[''mock-service'']"]
  by (simp add: get_deployments_def get_config_changes_def get_flag_changes_def td_hours_def)

section \<open>Deduplication of persisted anomalies\<close>

lemma dedup_ok_append:
  assumes ok: "dedup_ok table"
    and new: "\<forall>r \<in> set table. a_service r = a_service x \<and> a_metric r = a_metric x
                \<longrightarrow> \<bar>a_start_ts r - a_start_ts x\<bar> > 60 * 1000000"
  shows "dedup_ok (table @ [x])"
  unfolding dedup_ok_def
proof (intro allI impI)
  fix i j
  assume i: "i < length (table @ [x])" and j: "j < length (table @ [x])"
    and h: "i \<noteq> j \<and> a_service ((table @ [x]) ! i) = a_service ((table @ [x]) ! j)
            \<and> a_metric ((table @ [x]) ! i) = a_metric ((table @ [x]) ! j)"
  consider "i < length table" "j < length table"
    | "i < length table" "j = length table"
    | "i = length table" "j < length table"
    using i j h by (cases "i < length table"; cases "j < length table") auto
  then show "60 * 1000000 < \<bar>a_start_ts ((table @ [x]) ! i) - a_start_ts ((table @ [x]) ! j)\<bar>"
  proof cases
    case 1
    then show ?thesis using ok h by (simp add: dedup_ok_def nth_append)
  next
    case 2
    then have "table ! i \<in> set table" by simp
    then show ?thesis using new h 2 by (simp add: nth_append)
  next
    case 3
    then have "table ! j \<in> set table" by simp
    then show ?thesis using new h 3 by (auto simp: nth_append abs_minus_commute)
  qed
qed

lemma store_anomaly_dedup:
  assumes "dedup_ok table"
  shows "dedup_ok (store_anomaly table aid svc metric start_ts end_ts sc)"
proof (cases "filter (\<lambda>r. a_service r = svc \<and> a_metric r = metric
                \<and> a_start_ts r \<ge> start_ts - td_minutes 1
                \<and> a_start_ts r \<le> start_ts + td_minutes 1) table = []")
  case False
  then show ?thesis using assms by (simp add: store_anomaly_def Let_def)
next
  case True
  then have "\<forall>r \<in> set table. a_service r = svc \<and> a_metric r = metric
               \<longrightarrow> \<bar>a_start_ts r - start_ts\<bar> > 60 * 1000000"
    by (auto simp: filter_empty_conv td_minutes_def)
  then show ?thesis using assms True
    by (simp add: store_anomaly_def Let_def dedup_ok_append)
qed

lemma store_anomaly_skip:
  assumes "r \<in> set table" "a_service r = svc" "a_metric r = metric"
    "\<bar>a_start_ts r - start_ts\<bar> \<le> 60 * 1000000"
  shows "store_anomaly table aid svc metric start_ts end_ts sc = table"
proof -
  have "r \<in> set (filter (\<lambda>r. a_service r = svc \<and> a_metric r = metric
                \<and> a_start_ts r \<ge> start_ts - td_minutes 1
                \<and> a_start_ts r \<le> start_ts + td_minutes 1) table)"
    using assms by (simp add: td_minutes_def) linarith
  then have "filter (\<lambda>r. a_service r = svc \<and> a_metric r = metric
                \<and> a_start_ts r \<ge> start_ts - td_minutes 1
                \<and> a_start_ts r \<le> start_ts + td_minutes 1) table \<noteq> []"
    by (metis empty_iff list.set(1))
  then show ?thesis by (simp add: store_anomaly_def Let_def)
qed

lemma store_anomalies_dedup:
  "dedup_ok table \<Longrightarrow> dedup_ok (store_anomalies uuid4 n table svc metric segs)"
  by (induction uuid4 n table svc metric segs rule: store_anomalies.induct)
     (simp_all add: store_anomaly_dedup)

text \<open>
  C8. \<open>store_anomaly\<close> keeps the deduplication invariant: if any two rows of the table
  with the same service and metric start more than 60 s apart, the same holds after the
  call, and after the loop that stores the segments of a sweep; it holds of every table
  built from the empty one by that loop. The call leaves the table as it is whenever a row
  of the same service and metric starts within 60 s (bounds included) of the new start.
\<close>

theorem store_anomaly_dedup_invariant:
  "(dedup_ok table \<longrightarrow>
      dedup_ok (store_anomaly table aid svc metric start_ts end_ts sc)
      \<and> dedup_ok (store_anomalies uuid4 n table svc metric segs))
   \<and> dedup_ok (store_anomalies uuid4 n [] svc metric segs)
   \<and> ((\<exists>r \<in> set table. a_service r = svc \<and> a_metric r = metric
          \<and> \<bar>a_start_ts r - start_ts\<bar> \<le> 60 * 1000000)
       \<longrightarrow> store_anomaly table aid svc metric start_ts end_ts sc = table)"
proof (intro conjI impI)
  assume "dedup_ok table"
  then show "dedup_ok (store_anomaly table aid svc metric start_ts end_ts sc)"
    by (rule store_anomaly_dedup)
next
  assume "dedup_ok table"
  then show "dedup_ok (store_anomalies uuid4 n table svc metric segs)"
    by (rule store_anomalies_dedup)
next
  have "dedup_ok []" by (simp add: dedup_ok_def)
  then show "dedup_ok (store_anomalies uuid4 n [] svc metric segs)"
    by (rule store_anomalies_dedup)
next
  assume "\<exists>r \<in> set table. a_service r = svc \<and> a_metric r = metric
          \<and> \<bar>a_start_ts r - start_ts\<bar> \<le> 60 * 1000000"
  then show "store_anomaly table aid svc metric start_ts end_ts sc = table"
    by (auto intro: store_anomaly_skip)
qed


text \<open>The theorem on a table of one row and a segment that starts exactly 60 s
  later.\<close>

theorem store_anomaly_dedup_invariant_witness:
  "store_anomaly
     [\<lparr> a_id = ''a0'', a_start_ts = 0, a_end_ts = 120000000, a_service = ''payment'',
        a_metric = ''error_rate'', a_score = 5, detector = ''robust_zscore'',
        details_z_score = 5 \<rparr>]
     ''a1'' ''payment'' ''error_rate'' 60000000 180000000 4
   = [\<lparr> a_id = ''a0'', a_start_ts = 0, a_end_ts = 120000000, a_service = ''payment'',
        a_metric = ''error_rate'', a_score = 5, detector = ''robust_zscore'',
        details_z_score = 5 \<rparr>]
   \<and> dedup_ok (store_anomaly
     [\<lparr> a_id = ''a0'', a_start_ts = 0, a_end_ts = 120000000, a_service = ''payment'',
        a_metric = ''error_rate'', a_score = 5, detector = ''robust_zscore'',
        details_z_score = 5 \<rparr>]
     ''a1'' ''payment'' ''error_rate'' 60000000 180000000 4)"
proof -
  let ?t = "[\<lparr> a_id = ''a0'', a_start_ts = 0, a_end_ts = 120000000, a_service = ''payment'',
        a_metric = ''error_rate'', a_score = 5, detector = ''robust_zscore'',
        details_z_score = 5 \<rparr>]"
  have ok: "dedup_ok ?t" by (simp add: dedup_ok_def)
  have near: "\<exists>r \<in> set ?t. a_service r = ''payment'' \<and> a_metric r = ''error_rate''
          \<and> \<bar>a_start_ts r - 60000000\<bar> \<le> 60 * 1000000" by simp
  from store_anomaly_dedup_invariant
         [of ?t "''a1''" "''payment''" "''error_rate''" 60000000 180000000 4] ok near
  show ?thesis by blast
qed

section \<open>The feature map of a candidate that is not a deployment\<close>

text \<open>
  C5 does not hold of the code. For a CONFIG candidate with no diff summary, whatever the
  stores answer, the extracted map has ten keys: \<open>avg_metric_delta\<close> is missing (the early
  return of \<open>_extract_correlation_features\<close> for a candidate that is not a deployment
  writes two of the three keys its other branches write) and \<open>diff_keyword_count\<close> is
  missing (the early return of \<open>_extract_diff_features\<close> for an empty diff summary writes
  two of three).
\<close>

theorem extract_features_config_candidate_keys:
  "map fst (extract_features
      \<lparr> suspect_type = ''CONFIG'', suspect_key = ''c1'', ts = 9000000000,
        service = Some ''payment'',
        metadata = [(''key'', Some ''pool_size''), (''old_value_hash'', None),
                    (''new_value_hash'', None), (''diff_summary'', None),
                    (''source'', None)],
        evidence = None \<rparr>
      10000000000 10600000000 [''payment''] client incident_count_30d)
   = [''minutes_before_incident'', ''is_before_incident'', ''time_proximity_score'',
      ''metric_delta_count'', ''max_metric_delta'', ''error_log_delta'',
      ''new_error_signature'', ''diff_length'', ''diff_keyword_hit'',
      ''service_incident_rate_30d'']
   \<and> \<not> set contract_feature_names \<subseteq> set (map fst (extract_features
      \<lparr> suspect_type = ''CONFIG'', suspect_key = ''c1'', ts = 9000000000,
        service = Some ''payment'',
        metadata = [(''key'', Some ''pool_size''), (''old_value_hash'', None),
                    (''new_value_hash'', None), (''diff_summary'', None),
                    (''source'', None)],
        evidence = None \<rparr>
      10000000000 10600000000 [''payment''] client incident_count_30d))"
proof -
  let ?c = "\<lparr> suspect_type = ''CONFIG'', suspect_key = ''c1'', ts = 9000000000,
        service = Some ''payment'',
        metadata = [(''key'', Some ''pool_size''), (''old_value_hash'', None),
                    (''new_value_hash'', None), (''diff_summary'', None),
                    (''source'', None)],
        evidence = None \<rparr>"
  have h: "map fst (extract_historical_features ?c incident_count_30d)
            = [''service_incident_rate_30d'']"
    by (simp add: extract_historical_features_def split: sum.split option.split)
  obtain v where v: "extract_historical_features ?c incident_count_30d
            = [(''service_incident_rate_30d'', v)]"
    using h by (cases "extract_historical_features ?c incident_count_30d") auto
  have keys: "map fst (extract_features ?c 10000000000 10600000000 [''payment''] client
                 incident_count_30d)
   = [''minutes_before_incident'', ''is_before_incident'', ''time_proximity_score'',
      ''metric_delta_count'', ''max_metric_delta'', ''error_log_delta'',
      ''new_error_signature'', ''diff_length'', ''diff_keyword_hit'',
      ''service_incident_rate_30d'']"
    unfolding extract_features_def v
    by (simp add: extract_time_features_def extract_correlation_features_def
        extract_log_features_def extract_diff_features_def dict_update_def Let_def)
  show ?thesis unfolding keys by (simp add: contract_feature_names_def)
qed

section \<open>Persisting the ranked suspects\<close>

lemma suspect_rows_Nil: "suspect_rows uuid4 n iid [] = []"
  by (simp add: suspect_rows_def)

lemma suspect_rows_Cons:
  "suspect_rows uuid4 n iid (x # xs) =
     \<lparr> s_id = uuid4 n, s_incident_id = iid,
       s_suspect_type = suspect_type x, s_suspect_key = suspect_key x,
       s_rank = rank x, s_score = score x,
       s_evidence = evidence_of (candidate.truncate x) \<rparr> # suspect_rows uuid4 (Suc n) iid xs"
  by (simp add: suspect_rows_def)

lemma evidence_of_truncate:
  "evidence x = Some ev \<Longrightarrow> evidence_of (candidate.truncate x) = ev"
  by (simp add: evidence_of_def candidate.truncate_def)

lemma insert_fails_0:
  "insert_fails rejects uuid4 n iid (x # xs) 0 \<longleftrightarrow>
     evidence x = None
     \<or> rejects \<lparr> s_id = uuid4 n, s_incident_id = iid,
                 s_suspect_type = suspect_type x, s_suspect_key = suspect_key x,
                 s_rank = rank x, s_score = score x,
                 s_evidence = evidence_of (candidate.truncate x) \<rparr>"
  by (simp add: insert_fails_def suspect_rows_Cons)

lemma insert_fails_Suc:
  "insert_fails rejects uuid4 n iid (x # xs) (Suc i)
     \<longleftrightarrow> insert_fails rejects uuid4 (Suc n) iid xs i"
  by (simp add: insert_fails_def suspect_rows_Cons)

text \<open>The exception that ends the inserts when the first failing one is the \<open>k\<close>-th.\<close>

lemma insert_suspects_first_failure:
  "\<exists>k \<le> length rl.
     (\<forall>i < k. \<not> insert_fails rejects uuid4 n iid rl i)
     \<and> (k < length rl \<longrightarrow> insert_fails rejects uuid4 n iid rl k)
     \<and> insert_suspects rejects uuid4 n iid t rl
         = (t @ suspect_rows uuid4 n iid (take k rl),
            if k = length rl then None
            else if evidence (rl ! k) = None then Some KeyError else Some StoreError)"
proof (induction rl arbitrary: n t)
  case Nil
  then show ?case by (simp add: suspect_rows_Nil)
next
  case (Cons x xs)
  let ?row = "\<lparr> s_id = uuid4 n, s_incident_id = iid,
                 s_suspect_type = suspect_type x, s_suspect_key = suspect_key x,
                 s_rank = rank x, s_score = score x,
                 s_evidence = evidence_of (candidate.truncate x) \<rparr>"
  show ?case
  proof (cases "insert_fails rejects uuid4 n iid (x # xs) 0")
    case True
    have "insert_suspects rejects uuid4 n iid t (x # xs)
            = (t @ suspect_rows uuid4 n iid (take 0 (x # xs)),
               if evidence x = None then Some KeyError else Some StoreError)"
    proof (cases "evidence x")
      case None
      then show ?thesis by (simp add: suspect_rows_Nil)
    next
      case (Some ev)
      then have "rejects ?row" using True by (simp add: insert_fails_0)
      then show ?thesis using Some by (simp add: suspect_rows_Nil evidence_of_truncate)
    qed
    then show ?thesis using True by (intro exI[of _ 0]) simp
  next
    case False
    then obtain ev where ev: "evidence x = Some ev" and ok: "\<not> rejects ?row"
      by (auto simp: insert_fails_0)
    from Cons.IH[of "Suc n" "t @ [?row]"] obtain k where
      k: "k \<le> length xs"
      and before: "\<forall>i < k. \<not> insert_fails rejects uuid4 (Suc n) iid xs i"
      and at: "k < length xs \<longrightarrow> insert_fails rejects uuid4 (Suc n) iid xs k"
      and eq: "insert_suspects rejects uuid4 (Suc n) iid (t @ [?row]) xs
                = ((t @ [?row]) @ suspect_rows uuid4 (Suc n) iid (take k xs),
                   if k = length xs then None
                   else if evidence (xs ! k) = None then Some KeyError else Some StoreError)"
      by blast
    have b': "\<forall>i < Suc k. \<not> insert_fails rejects uuid4 n iid (x # xs) i"
    proof (intro allI impI)
      fix i assume "i < Suc k"
      then show "\<not> insert_fails rejects uuid4 n iid (x # xs) i"
        using False before by (cases i) (simp_all add: insert_fails_Suc)
    qed
    have a': "Suc k < length (x # xs) \<longrightarrow> insert_fails rejects uuid4 n iid (x # xs) (Suc k)"
      using at by (simp add: insert_fails_Suc)
    have "insert_suspects rejects uuid4 n iid t (x # xs)
            = (t @ suspect_rows uuid4 n iid (take (Suc k) (x # xs)),
               if Suc k = length (x # xs) then None
               else if evidence ((x # xs) ! Suc k) = None then Some KeyError
                    else Some StoreError)"
      using ev ok eq by (simp add: suspect_rows_Cons evidence_of_truncate)
    then show ?thesis using k b' a' by (intro exI[of _ "Suc k"]) simp
  qed
qed

text \<open>
  C4 (as amended). \<open>_store_suspects\<close> runs the DELETE and the INSERTs as separate statements
  with no transaction around them. If the DELETE (or taking the connection) fails, the
  table is unchanged. Otherwise every stored suspect of the incident is deleted and the
  new rows are inserted in list order up to the first insert that fails: with \<open>k\<close> the
  index of the first failing insert (the length of the list when none fails), the table
  holds the rows of the other incidents followed by the rows of the first \<open>k\<close> suspects of
  the new list, and the call ends without an exception exactly when no insert fails. So a
  failing insert leaves the incident's earlier suspects deleted and the rows inserted
  before it in place, and a call in which nothing fails stores the whole list.
\<close>

theorem store_suspects_statement_by_statement:
  "(delete_fails \<longrightarrow>
      store_suspects delete_fails rejects uuid4 n table incident_id ranked_list
        = (table, Some StoreError))
   \<and> (\<not> delete_fails \<longrightarrow>
        (\<exists>k \<le> length ranked_list.
           (\<forall>i < k. \<not> insert_fails rejects uuid4 n incident_id ranked_list i)
           \<and> (k < length ranked_list
                \<longrightarrow> insert_fails rejects uuid4 n incident_id ranked_list k)
           \<and> store_suspects delete_fails rejects uuid4 n table incident_id ranked_list
               = (filter (\<lambda>r. s_incident_id r \<noteq> incident_id) table
                    @ suspect_rows uuid4 n incident_id (take k ranked_list),
                  if k = length ranked_list then None
                  else if evidence (ranked_list ! k) = None then Some KeyError
                       else Some StoreError)))"
proof (intro conjI impI)
  assume delete_fails
  then show "store_suspects delete_fails rejects uuid4 n table incident_id ranked_list
               = (table, Some StoreError)"
    by (simp add: store_suspects_def)
next
  assume "\<not> delete_fails"
  then have "store_suspects delete_fails rejects uuid4 n table incident_id ranked_list
               = insert_suspects rejects uuid4 n incident_id
                   (filter (\<lambda>r. s_incident_id r \<noteq> incident_id) table) ranked_list"
    by (simp add: store_suspects_def)
  then show "\<exists>k \<le> length ranked_list.
           (\<forall>i < k. \<not> insert_fails rejects uuid4 n incident_id ranked_list i)
           \<and> (k < length ranked_list
                \<longrightarrow> insert_fails rejects uuid4 n incident_id ranked_list k)
           \<and> store_suspects delete_fails rejects uuid4 n table incident_id ranked_list
               = (filter (\<lambda>r. s_incident_id r \<noteq> incident_id) table
                    @ suspect_rows uuid4 n incident_id (take k ranked_list),
                  if k = length ranked_list then None
                  else if evidence (ranked_list ! k) = None then Some KeyError
                       else Some StoreError)"
    using insert_suspects_first_failure
            [of ranked_list rejects uuid4 n incident_id
                "filter (\<lambda>r. s_incident_id r \<noteq> incident_id) table"]
    by simp
qed

text \<open>The theorem on a table with one suspect of the incident and one of another
  incident, and a new list of two whose inserts both succeed: the index of the first
  failing insert is 2, so the other incident's row and the two new rows are stored. With a
  failing DELETE the table is unchanged.\<close>

theorem store_suspects_statement_by_statement_witness:
  "store_suspects False (\<lambda>row. False) (\<lambda>n. if n = 0 then ''new-0'' else ''new-1'') 0
     [\<lparr> s_id = ''old-0'', s_incident_id = ''inc-1'', s_suspect_type = ''DEPLOYMENT'',
        s_suspect_key = ''d1'', s_rank = 1, s_score = 4, s_evidence = [] \<rparr>,
      \<lparr> s_id = ''old-1'', s_incident_id = ''inc-2'', s_suspect_type = ''FLAG'',
        s_suspect_key = ''f9'', s_rank = 1, s_score = 2, s_evidence = [] \<rparr>]
     ''inc-1''
     [\<lparr> suspect_type = ''CONFIG'', suspect_key = ''c1'', ts = 0, service = Some ''payment'',
        metadata = [], evidence = Some [(''is_before_incident'', 1)], score = 5, rank = 1 \<rparr>,
      \<lparr> suspect_type = ''FLAG'', suspect_key = ''f1'', ts = 0, service = None,
        metadata = [], evidence = Some [], score = 0, rank = 2 \<rparr>]
   = ([\<lparr> s_id = ''old-1'', s_incident_id = ''inc-2'', s_suspect_type = ''FLAG'',
         s_suspect_key = ''f9'', s_rank = 1, s_score = 2, s_evidence = [] \<rparr>,
       \<lparr> s_id = ''new-0'', s_incident_id = ''inc-1'', s_suspect_type = ''CONFIG'',
         s_suspect_key = ''c1'', s_rank = 1, s_score = 5,
         s_evidence = [(''is_before_incident'', 1)] \<rparr>,
       \<lparr> s_id = ''new-1'', s_incident_id = ''inc-1'', s_suspect_type = ''FLAG'',
         s_suspect_key = ''f1'', s_rank = 2, s_score = 0, s_evidence = [] \<rparr>],
      None)
   \<and> store_suspects True (\<lambda>row. False) (\<lambda>n. ''new-0'') 0
     [\<lparr> s_id = ''old-0'', s_incident_id = ''inc-1'', s_suspect_type = ''DEPLOYMENT'',
        s_suspect_key = ''d1'', s_rank = 1, s_score = 4, s_evidence = [] \<rparr>]
     ''inc-1'' []
   = ([\<lparr> s_id = ''old-0'', s_incident_id = ''inc-1'', s_suspect_type = ''DEPLOYMENT'',
         s_suspect_key = ''d1'', s_rank = 1, s_score = 4, s_evidence = [] \<rparr>],
      Some StoreError)"
proof -
  let ?u = "\<lambda>n :: nat. if n = 0 then ''new-0'' else ''new-1''"
  let ?rej = "\<lambda>row :: suspect_row. False"
  let ?old = "\<lparr> s_id = ''old-0'', s_incident_id = ''inc-1'', s_suspect_type = ''DEPLOYMENT'',
        s_suspect_key = ''d1'', s_rank = 1, s_score = 4, s_evidence = [] \<rparr>"
  let ?other = "\<lparr> s_id = ''old-1'', s_incident_id = ''inc-2'', s_suspect_type = ''FLAG'',
        s_suspect_key = ''f9'', s_rank = 1, s_score = 2, s_evidence = [] \<rparr>"
  let ?rl = "[\<lparr> suspect_type = ''CONFIG'', suspect_key = ''c1'', ts = 0,
        service = Some ''payment'',
        metadata = [], evidence = Some [(''is_before_incident'', 1)], score = 5, rank = 1 \<rparr>,
      \<lparr> suspect_type = ''FLAG'', suspect_key = ''f1'', ts = 0, service = None,
        metadata = [], evidence = Some [], score = 0, rank = 2 \<rparr>]"
  have f0: "\<not> insert_fails ?rej ?u 0 ''inc-1'' ?rl 0"
    and f1: "\<not> insert_fails ?rej ?u 0 ''inc-1'' ?rl 1"
    by (simp_all add: insert_fails_def)
  from store_suspects_statement_by_statement
         [of False ?rej ?u 0 "[?old, ?other]" "''inc-1''" ?rl]
  obtain k where k: "k \<le> length ?rl"
    and at: "k < length ?rl \<longrightarrow> insert_fails ?rej ?u 0 ''inc-1'' ?rl k"
    and eq: "store_suspects False ?rej ?u 0 [?old, ?other] ''inc-1'' ?rl
               = (filter (\<lambda>r. s_incident_id r \<noteq> ''inc-1'') [?old, ?other]
                    @ suspect_rows ?u 0 ''inc-1'' (take k ?rl),
                  if k = length ?rl then None
                  else if evidence (?rl ! k) = None then Some KeyError else Some StoreError)"
    by blast
  have "k = 2"
  proof -
    have "k \<noteq> 0"
    proof
      assume "k = 0"
      with at have "insert_fails ?rej ?u 0 ''inc-1'' ?rl 0" by simp
      with f0 show False by blast
    qed
    moreover have "k \<noteq> 1"
    proof
      assume "k = 1"
      with at have "insert_fails ?rej ?u 0 ''inc-1'' ?rl 1" by simp
      with f1 show False by blast
    qed
    ultimately show ?thesis using k by simp
  qed
  then have first: "store_suspects False ?rej ?u 0 [?old, ?other] ''inc-1'' ?rl
               = ([?other] @ suspect_rows ?u 0 ''inc-1'' ?rl, None)"
    using eq by simp
  have second: "store_suspects True ?rej (\<lambda>n. ''new-0'') 0 [?old] ''inc-1'' []
                  = ([?old], Some StoreError)"
    using store_suspects_statement_by_statement
            [of True ?rej "\<lambda>n. ''new-0''" 0 "[?old]" "''inc-1''" "[]"]
    by simp
  show ?thesis using first second
    by (simp add: suspect_rows_def evidence_of_def candidate.truncate_def)
qed

text \<open>
  C4 fails as stated. An incident has one stored suspect. Storing a new list of two whose
  second row the store rejects ends with an exception and leaves the first new row alone
  in the table; storing a list whose first suspect has no evidence ends with \<open>KeyError\<close>
  and an empty table. In both the earlier suspect is lost.
\<close>

theorem store_suspects_partial_write:
  "store_suspects False (\<lambda>row. s_rank row = 2)
     (\<lambda>n. if n = 0 then ''new-0'' else ''new-1'') 0
     [\<lparr> s_id = ''old-0'', s_incident_id = ''inc-1'', s_suspect_type = ''DEPLOYMENT'',
        s_suspect_key = ''d1'', s_rank = 1, s_score = 4, s_evidence = [] \<rparr>]
     ''inc-1''
     [\<lparr> suspect_type = ''CONFIG'', suspect_key = ''c1'', ts = 0, service = Some ''payment'',
        metadata = [], evidence = Some [(''is_before_incident'', 1)], score = 5, rank = 1 \<rparr>,
      \<lparr> suspect_type = ''FLAG'', suspect_key = ''f1'', ts = 0, service = None,
        metadata = [], evidence = Some [], score = 0, rank = 2 \<rparr>]
   = ([\<lparr> s_id = ''new-0'', s_incident_id = ''inc-1'', s_suspect_type = ''CONFIG'',
         s_suspect_key = ''c1'', s_rank = 1, s_score = 5,
         s_evidence = [(''is_before_incident'', 1)] \<rparr>],
      Some StoreError)
   \<and> store_suspects False (\<lambda>row. False) (\<lambda>n. if n = 0 then ''new-0'' else ''new-1'') 0
     [\<lparr> s_id = ''old-0'', s_incident_id = ''inc-1'', s_suspect_type = ''DEPLOYMENT'',
        s_suspect_key = ''d1'', s_rank = 1, s_score = 4, s_evidence = [] \<rparr>]
     ''inc-1''
     [\<lparr> suspect_type = ''CONFIG'', suspect_key = ''c1'', ts = 0, service = Some ''payment'',
        metadata = [], evidence = None, score = 5, rank = 1 \<rparr>]
   = ([], Some KeyError)"
  by (simp add: store_suspects_def)

section \<open>The rankers\<close>

lemma truncate_extend:
  "candidate.truncate (candidate.extend c (ranked.fields s r)) = c"
  by (simp add: candidate.truncate_def candidate.extend_def)

lemma score_rank_extend:
  "score (candidate.extend c (ranked.fields s r)) = s"
  "rank (candidate.extend c (ranked.fields s r)) = r"
  by (simp_all add: candidate.extend_def ranked.fields_def)

lemma rank_scored_pairs:
  "map (\<lambda>r. (candidate.truncate r, score r)) (rank_scored scored)
     = sort_key (\<lambda>x. - snd x) scored"
proof -
  have "map (\<lambda>r. (candidate.truncate r, score r)) (rank_scored scored)
          = map snd (enumerate 0 (sort_key (\<lambda>x. - snd x) scored))"
    by (simp add: rank_scored_def truncate_extend score_rank_extend split_def comp_def)
  then show ?thesis by (simp add: map_snd_enumerate)
qed

lemma rank_scored_ranks:
  "map rank (rank_scored scored) = [1 ..< Suc (length scored)]"
proof -
  have "map rank (rank_scored scored)
          = map (\<lambda>p. Suc (fst p)) (enumerate 0 (sort_key (\<lambda>x. - snd x) scored))"
    by (simp add: rank_scored_def score_rank_extend split_def comp_def)
  also have "\<dots> = map Suc (map fst (enumerate 0 (sort_key (\<lambda>x. - snd x) scored)))"
    by (simp only: map_map comp_def)
  also have "\<dots> = map Suc [0 ..< length scored]"
    by (simp add: map_fst_enumerate)
  also have "\<dots> = [1 ..< Suc (length scored)]"
    by (simp only: map_Suc_upt One_nat_def)
  finally show ?thesis .
qed

lemma rank_scored_length: "length (rank_scored scored) = length scored"
  by (simp add: rank_scored_def)

lemma rank_scored_truncate:
  "map candidate.truncate (rank_scored scored) = map fst (sort_key (\<lambda>x. - snd x) scored)"
proof -
  have "map candidate.truncate (rank_scored scored)
          = map fst (map (\<lambda>r. (candidate.truncate r, score r)) (rank_scored scored))"
    by (simp add: comp_def)
  then show ?thesis by (simp only: rank_scored_pairs)
qed

lemma rank_scored_scores:
  "map score (rank_scored scored) = map snd (sort_key (\<lambda>x. - snd x) scored)"
proof -
  have "map score (rank_scored scored)
          = map snd (map (\<lambda>r. (candidate.truncate r, score r)) (rank_scored scored))"
    by (simp add: comp_def)
  then show ?thesis by (simp only: rank_scored_pairs)
qed

lemma rank_scored_descending:
  "sorted_wrt (\<ge>) (map score (rank_scored scored))"
proof -
  have "sorted (map (\<lambda>x. - snd x) (sort_key (\<lambda>x. - snd x) scored))"
    by (rule sorted_sort_key)
  then show ?thesis
    by (simp add: rank_scored_scores sorted_wrt_map)
qed

lemma rank_scored_mset:
  "mset (map candidate.truncate (rank_scored scored)) = mset (map fst scored)"
  by (simp add: rank_scored_truncate)

lemma rank_scored_stable:
  "map candidate.truncate (filter (\<lambda>r. score r = s) (rank_scored scored))
     = map fst (filter (\<lambda>x. snd x = s) scored)"
proof -
  have "map (\<lambda>r. (candidate.truncate r, score r)) (filter (\<lambda>r. score r = s) (rank_scored scored))
          = filter (\<lambda>x. snd x = s) (map (\<lambda>r. (candidate.truncate r, score r)) (rank_scored scored))"
    by (simp add: filter_map comp_def)
  also have "\<dots> = filter (\<lambda>x. - snd x = - s) (sort_key (\<lambda>x. - snd x) scored)"
    by (simp add: rank_scored_pairs)
  also have "\<dots> = filter (\<lambda>x. - snd x = - s) scored"
    by (rule sort_key_stable)
  finally have "map (\<lambda>r. (candidate.truncate r, score r))
                  (filter (\<lambda>r. score r = s) (rank_scored scored))
                = filter (\<lambda>x. snd x = s) scored"
    by simp
  then have "map fst (map (\<lambda>r. (candidate.truncate r, score r))
                  (filter (\<lambda>r. score r = s) (rank_scored scored)))
                = map fst (filter (\<lambda>x. snd x = s) scored)"
    by (simp only:)
  then show ?thesis by (simp add: comp_def)
qed

lemma attach_scores_Inr:
  "attach_scores cs scores = Inr scored \<Longrightarrow> map fst scored = cs"
  by (induction cs scores arbitrary: scored rule: attach_scores.induct)
     (auto split: sum.splits)

lemma attach_scores_total:
  "length cs \<le> length scores \<Longrightarrow> \<exists>scored. attach_scores cs scores = Inr scored"
  by (induction cs scores rule: attach_scores.induct) auto

lemma MLRanker_rank_Inr:
  assumes "MLRanker_rank self cs = Inr out"
  shows "\<exists>scored. out = rank_scored scored \<and> map fst scored = cs"
proof (cases "model self")
  case None
  then have "out = rank_scored (map (\<lambda>c. (c, compute_score (evidence_of c))) cs)"
    using assms by (simp add: MLRanker_rank_def HeuristicRanker_rank_def)
  then show ?thesis by (intro exI[of _ "map (\<lambda>c. (c, compute_score (evidence_of c))) cs"])
      (simp add: comp_def)
next
  case (Some pp)
  then obtain scores scored where "attach_scores cs scores = Inr scored"
    and "out = rank_scored scored"
    using assms by (auto simp: MLRanker_rank_def split: sum.splits)
  then show ?thesis using attach_scores_Inr by blast
qed


lemma attach_scores_zip:
  "attach_scores cs scores = Inr scored \<Longrightarrow> scored = zip cs scores"
  by (induction cs scores arbitrary: scored rule: attach_scores.induct)
     (auto split: sum.splits)

text \<open>
  C2 (as amended). For every candidate list of length N the ranks of the output are
  1, ..., N in output order, so their set is {1, ..., N}, and the scores are in descending
  order. Candidates of equal score keep the order they had in the input: the sort is by
  score alone and stable, and neither \<open>suspect_type\<close> nor \<open>suspect_key\<close> is compared. All
  of this holds of the heuristic ranker and of every result the learned ranker returns,
  both when it falls back to the heuristic score (no model) and when it scores with the
  model: there the candidates whose positive-class probabilities are equal keep their
  input order.
\<close>

theorem rank_contiguous_descending_stable:
  "map rank (HeuristicRanker_rank cs) = [1 ..< Suc (length cs)]
   \<and> rank ` set (HeuristicRanker_rank cs) = {1 .. length cs}
   \<and> sorted_wrt (\<ge>) (map score (HeuristicRanker_rank cs))
   \<and> (\<forall>s. map candidate.truncate (filter (\<lambda>r. score r = s) (HeuristicRanker_rank cs))
            = filter (\<lambda>c. compute_score (evidence_of c) = s) cs)
   \<and> (MLRanker_rank self cs = Inr out \<longrightarrow>
         map rank out = [1 ..< Suc (length cs)]
         \<and> rank ` set out = {1 .. length cs}
         \<and> sorted_wrt (\<ge>) (map score out)
         \<and> (model self = None \<longrightarrow>
              (\<forall>s. map candidate.truncate (filter (\<lambda>r. score r = s) out)
                     = filter (\<lambda>c. compute_score (evidence_of c) = s) cs))
         \<and> (\<forall>predict_proba probabilities scores.
               model self = Some predict_proba
               \<and> predict_proba (map (\<lambda>c. ml_extract_features self (evidence_of c)) cs)
                    = Inr probabilities
               \<and> positive_class_scores probabilities = Inr scores
               \<longrightarrow> (\<forall>s. map candidate.truncate (filter (\<lambda>r. score r = s) out)
                          = map fst (filter (\<lambda>x. snd x = s) (zip cs scores)))))"
proof -
  let ?sc = "map (\<lambda>c. (c, compute_score (evidence_of c))) cs"
  have set_ranks: "rank ` set xs = {1 .. n}" if "map rank xs = [1 ..< Suc n]" for xs n
  proof -
    have "rank ` set xs = set (map rank xs)" by simp
    also have "\<dots> = {1 .. n}" unfolding that by (simp only: set_upt) auto
    finally show ?thesis .
  qed
  have h1: "map rank (HeuristicRanker_rank cs) = [1 ..< Suc (length cs)]"
    by (simp add: HeuristicRanker_rank_def rank_scored_ranks)
  have h2: "sorted_wrt (\<ge>) (map score (HeuristicRanker_rank cs))"
    by (simp add: HeuristicRanker_rank_def rank_scored_descending)
  have h3: "map candidate.truncate (filter (\<lambda>r. score r = s) (HeuristicRanker_rank cs))
            = filter (\<lambda>c. compute_score (evidence_of c) = s) cs" for s
  proof -
    have "map candidate.truncate (filter (\<lambda>r. score r = s) (HeuristicRanker_rank cs))
            = map fst (filter (\<lambda>x. snd x = s) ?sc)"
      by (simp add: HeuristicRanker_rank_def rank_scored_stable)
    also have "\<dots> = filter (\<lambda>c. compute_score (evidence_of c) = s) cs"
      by (induction cs) simp_all
    finally show ?thesis .
  qed
  have h4: "map rank out = [1 ..< Suc (length cs)] \<and> sorted_wrt (\<ge>) (map score out)"
    if "MLRanker_rank self cs = Inr out"
  proof -
    from that obtain scored where out: "out = rank_scored scored" and fs: "map fst scored = cs"
      using MLRanker_rank_Inr by blast
    have "length scored = length cs" using fs by (metis length_map)
    then show ?thesis by (simp add: out rank_scored_ranks rank_scored_descending)
  qed
  have h5: "map candidate.truncate (filter (\<lambda>r. score r = s) out)
              = filter (\<lambda>c. compute_score (evidence_of c) = s) cs"
    if "MLRanker_rank self cs = Inr out" and "model self = None" for s
  proof -
    have "out = HeuristicRanker_rank cs" using that by (simp add: MLRanker_rank_def)
    then show ?thesis by (simp only: h3)
  qed
  have h6: "map candidate.truncate (filter (\<lambda>r. score r = s) out)
              = map fst (filter (\<lambda>x. snd x = s) (zip cs scores))"
    if run: "MLRanker_rank self cs = Inr out"
      and m: "model self = Some predict_proba"
      and p: "predict_proba (map (\<lambda>c. ml_extract_features self (evidence_of c)) cs)
                = Inr probabilities"
      and sc: "positive_class_scores probabilities = Inr scores"
    for predict_proba probabilities scores s
  proof -
    from run m p sc obtain scored where a: "attach_scores cs scores = Inr scored"
      and out: "out = rank_scored scored"
      by (auto simp: MLRanker_rank_def split: sum.splits)
    have "scored = zip cs scores" using a by (rule attach_scores_zip)
    then show ?thesis by (simp add: out rank_scored_stable)
  qed
  have ml: "map rank out = [1 ..< Suc (length cs)]
         \<and> rank ` set out = {1 .. length cs}
         \<and> sorted_wrt (\<ge>) (map score out)
         \<and> (model self = None \<longrightarrow>
              (\<forall>s. map candidate.truncate (filter (\<lambda>r. score r = s) out)
                     = filter (\<lambda>c. compute_score (evidence_of c) = s) cs))
         \<and> (\<forall>predict_proba probabilities scores.
               model self = Some predict_proba
               \<and> predict_proba (map (\<lambda>c. ml_extract_features self (evidence_of c)) cs)
                    = Inr probabilities
               \<and> positive_class_scores probabilities = Inr scores
               \<longrightarrow> (\<forall>s. map candidate.truncate (filter (\<lambda>r. score r = s) out)
                          = map fst (filter (\<lambda>x. snd x = s) (zip cs scores))))"
    if run: "MLRanker_rank self cs = Inr out"
  proof (intro conjI allI impI)
    show "map rank out = [1 ..< Suc (length cs)]" using h4[OF run] by simp
    then show "rank ` set out = {1 .. length cs}" by (rule set_ranks)
    show "sorted_wrt (\<ge>) (map score out)" using h4[OF run] by simp
  next
    fix s assume "model self = None"
    with run show "map candidate.truncate (filter (\<lambda>r. score r = s) out)
                     = filter (\<lambda>c. compute_score (evidence_of c) = s) cs"
      by (rule h5)
  next
    fix predict_proba probabilities scores s
    assume a: "model self = Some predict_proba
               \<and> predict_proba (map (\<lambda>c. ml_extract_features self (evidence_of c)) cs)
                    = Inr probabilities
               \<and> positive_class_scores probabilities = Inr scores"
    show "map candidate.truncate (filter (\<lambda>r. score r = s) out)
            = map fst (filter (\<lambda>x. snd x = s) (zip cs scores))"
      using h6[OF run, of predict_proba probabilities scores s] a by simp
  qed
  have hr: "rank ` set (HeuristicRanker_rank cs) = {1 .. length cs}"
    using h1 by (rule set_ranks)
  show ?thesis
  proof (intro conjI allI impI)
    show "map rank (HeuristicRanker_rank cs) = [1 ..< Suc (length cs)]" by (rule h1)
    show "rank ` set (HeuristicRanker_rank cs) = {1 .. length cs}" by (rule hr)
    show "sorted_wrt (\<ge>) (map score (HeuristicRanker_rank cs))" by (rule h2)
    show "map candidate.truncate (filter (\<lambda>r. score r = s) (HeuristicRanker_rank cs))
            = filter (\<lambda>c. compute_score (evidence_of c) = s) cs" for s by (rule h3)
  next
    assume run: "MLRanker_rank self cs = Inr out"
    show "map rank out = [1 ..< Suc (length cs)]" using ml[OF run] by simp
    show "rank ` set out = {1 .. length cs}" using ml[OF run] by simp
    show "sorted_wrt (\<ge>) (map score out)" using ml[OF run] by simp
  next
    fix s assume run: "MLRanker_rank self cs = Inr out" and "model self = None"
    then show "map candidate.truncate (filter (\<lambda>r. score r = s) out)
                     = filter (\<lambda>c. compute_score (evidence_of c) = s) cs"
      by (rule h5)
  next
    fix predict_proba probabilities scores s
    assume run: "MLRanker_rank self cs = Inr out"
      and a: "model self = Some predict_proba
               \<and> predict_proba (map (\<lambda>c. ml_extract_features self (evidence_of c)) cs)
                    = Inr probabilities
               \<and> positive_class_scores probabilities = Inr scores"
    show "map candidate.truncate (filter (\<lambda>r. score r = s) out)
            = map fst (filter (\<lambda>x. snd x = s) (zip cs scores))"
      using h6[OF run, of predict_proba probabilities scores s] a by simp
  qed
qed

text \<open>The theorem on the learned ranker with a model that gives every candidate the
  probability 1/2: the two candidates tie and come out in input order, ranked 1 and 2.\<close>

theorem rank_contiguous_descending_stable_witness:
  "MLRanker_rank
      \<lparr> model = Some (\<lambda>X. Inr (2, map (\<lambda>row. [1 / 2, 1 / 2]) X)),
        feature_names = None \<rparr>
      [\<lparr> suspect_type = ''FLAG'', suspect_key = ''f1'', ts = 0, service = None,
         metadata = [], evidence = Some [(''is_before_incident'', 0)] \<rparr>,
       \<lparr> suspect_type = ''DEPLOYMENT'', suspect_key = ''d1'', ts = 0,
         service = Some ''payment'', metadata = [],
         evidence = Some [(''is_before_incident'', 1)] \<rparr>]
    = Inr [\<lparr> suspect_type = ''FLAG'', suspect_key = ''f1'', ts = 0, service = None,
             metadata = [], evidence = Some [(''is_before_incident'', 0)],
             score = 1 / 2, rank = 1 \<rparr>,
           \<lparr> suspect_type = ''DEPLOYMENT'', suspect_key = ''d1'', ts = 0,
             service = Some ''payment'', metadata = [],
             evidence = Some [(''is_before_incident'', 1)], score = 1 / 2, rank = 2 \<rparr>]
   \<and> map candidate.truncate (filter (\<lambda>r. score r = 1 / 2)
        [\<lparr> suspect_type = ''FLAG'', suspect_key = ''f1'', ts = 0, service = None,
             metadata = [], evidence = Some [(''is_before_incident'', 0)],
             score = 1 / 2, rank = 1 \<rparr>,
           \<lparr> suspect_type = ''DEPLOYMENT'', suspect_key = ''d1'', ts = 0,
             service = Some ''payment'', metadata = [],
             evidence = Some [(''is_before_incident'', 1)], score = 1 / 2, rank = 2 \<rparr>])
     = [\<lparr> suspect_type = ''FLAG'', suspect_key = ''f1'', ts = 0, service = None,
         metadata = [], evidence = Some [(''is_before_incident'', 0)] \<rparr>,
       \<lparr> suspect_type = ''DEPLOYMENT'', suspect_key = ''d1'', ts = 0,
         service = Some ''payment'', metadata = [],
         evidence = Some [(''is_before_incident'', 1)] \<rparr>]
   \<and> map rank
        [\<lparr> suspect_type = ''FLAG'', suspect_key = ''f1'', ts = 0, service = None,
             metadata = [], evidence = Some [(''is_before_incident'', 0)],
             score = 1 / 2, rank = 1 \<rparr>,
           \<lparr> suspect_type = ''DEPLOYMENT'', suspect_key = ''d1'', ts = 0,
             service = Some ''payment'', metadata = [],
             evidence = Some [(''is_before_incident'', 1)], score = 1 / 2, rank = 2 \<rparr>]
     = [1, 2]"
proof -
  let ?pp = "\<lambda>X :: real list list. (Inr (2, map (\<lambda>row. [1 / 2, 1 / 2]) X)
                :: py_error + nat \<times> real list list)"
  let ?m = "\<lparr> model = Some ?pp, feature_names = None \<rparr>"
  let ?cs = "[\<lparr> suspect_type = ''FLAG'', suspect_key = ''f1'', ts = 0, service = None,
         metadata = [], evidence = Some [(''is_before_incident'', 0)] \<rparr>,
       \<lparr> suspect_type = ''DEPLOYMENT'', suspect_key = ''d1'', ts = 0,
         service = Some ''payment'', metadata = [],
         evidence = Some [(''is_before_incident'', 1)] \<rparr>]"
  let ?out = "[\<lparr> suspect_type = ''FLAG'', suspect_key = ''f1'', ts = 0, service = None,
             metadata = [], evidence = Some [(''is_before_incident'', 0)],
             score = 1 / 2, rank = 1 \<rparr>,
           \<lparr> suspect_type = ''DEPLOYMENT'', suspect_key = ''d1'', ts = 0,
             service = Some ''payment'', metadata = [],
             evidence = Some [(''is_before_incident'', 1)], score = 1 / 2, rank = 2 \<rparr>]"
  let ?X = "map (\<lambda>c. ml_extract_features ?m (evidence_of c)) ?cs"
  have run: "MLRanker_rank ?m ?cs = Inr ?out"
    by (simp add: MLRanker_rank_def ml_extract_features_def default_feature_names_def
        evidence_of_def ev_get_def positive_class_scores_def rank_scored_def
        candidate.extend_def ranked.fields_def)
  have m: "model ?m = Some ?pp" by simp
  have p: "?pp ?X = Inr (2, map (\<lambda>row. [1 / 2, 1 / 2]) ?X)" by simp
  have sc: "positive_class_scores (2, map (\<lambda>row. [1 / 2, 1 / 2]) ?X) = Inr [1 / 2, 1 / 2]"
    by (simp add: positive_class_scores_def)
  note inst = rank_contiguous_descending_stable [of ?cs ?m ?out]
  have ml: "map rank ?out = [1 ..< Suc (length ?cs)]
         \<and> rank ` set ?out = {1 .. length ?cs}
         \<and> sorted_wrt (\<ge>) (map score ?out)
         \<and> (model ?m = None \<longrightarrow>
              (\<forall>s. map candidate.truncate (filter (\<lambda>r. score r = s) ?out)
                     = filter (\<lambda>c. compute_score (evidence_of c) = s) ?cs))
         \<and> (\<forall>predict_proba probabilities scores.
               model ?m = Some predict_proba
               \<and> predict_proba ?X = Inr probabilities
               \<and> positive_class_scores probabilities = Inr scores
               \<longrightarrow> (\<forall>s. map candidate.truncate (filter (\<lambda>r. score r = s) ?out)
                          = map fst (filter (\<lambda>x. snd x = s) (zip ?cs scores))))"
    by (rule mp [OF inst [THEN conjunct2, THEN conjunct2, THEN conjunct2, THEN conjunct2] run])
  have ranks: "map rank ?out = [1 ..< Suc (length ?cs)]"
    by (rule ml [THEN conjunct1])
  have st: "\<forall>predict_proba probabilities scores.
               model ?m = Some predict_proba
               \<and> predict_proba ?X = Inr probabilities
               \<and> positive_class_scores probabilities = Inr scores
               \<longrightarrow> (\<forall>s. map candidate.truncate (filter (\<lambda>r. score r = s) ?out)
                          = map fst (filter (\<lambda>x. snd x = s) (zip ?cs scores)))"
    by (rule ml [THEN conjunct2, THEN conjunct2, THEN conjunct2, THEN conjunct2])
  have "model ?m = Some ?pp
               \<and> ?pp ?X = Inr (2, map (\<lambda>row. [1 / 2, 1 / 2]) ?X)
               \<and> positive_class_scores (2, map (\<lambda>row. [1 / 2, 1 / 2]) ?X)
                   = Inr [1 / 2, 1 / 2]"
    using m p sc by (intro conjI)
  with st [THEN spec, THEN spec, THEN spec,
           of ?pp "(2, map (\<lambda>row. [1 / 2, 1 / 2]) ?X)" "[1 / 2, 1 / 2]"]
  have "\<forall>s. map candidate.truncate (filter (\<lambda>r. score r = s) ?out)
          = map fst (filter (\<lambda>x. snd x = s) (zip ?cs [1 / 2, 1 / 2 :: real]))"
    by (rule mp)
  then have "map candidate.truncate (filter (\<lambda>r. score r = 1 / 2) ?out)
          = map fst (filter (\<lambda>x. snd x = 1 / 2) (zip ?cs [1 / 2, 1 / 2 :: real]))"
    by (rule spec)
  then have tie: "map candidate.truncate (filter (\<lambda>r. score r = 1 / 2) ?out) = ?cs"
    by simp
  have r12: "map rank ?out = [1, 2]" using ranks by (simp add: upt_rec)
  show ?thesis by (intro conjI) (rule run, rule tie, rule r12)
qed

text \<open>
  C2 fails as stated: two candidates of equal score (no evidence, score 0) come out in
  the order they went in, whichever it is, so the tie is not broken by \<open>suspect_type\<close>
  then \<open>suspect_key\<close>.
\<close>

theorem rank_ties_follow_input_order:
  "map suspect_key (HeuristicRanker_rank
      [\<lparr> suspect_type = ''FLAG'', suspect_key = ''b'', ts = 0, service = None,
         metadata = [], evidence = None \<rparr>,
       \<lparr> suspect_type = ''DEPLOYMENT'', suspect_key = ''a'', ts = 0,
         service = Some ''payment'', metadata = [], evidence = None \<rparr>]) = [''b'', ''a'']
   \<and> map suspect_key (HeuristicRanker_rank
      [\<lparr> suspect_type = ''DEPLOYMENT'', suspect_key = ''a'', ts = 0,
         service = Some ''payment'', metadata = [], evidence = None \<rparr>,
       \<lparr> suspect_type = ''FLAG'', suspect_key = ''b'', ts = 0, service = None,
         metadata = [], evidence = None \<rparr>]) = [''a'', ''b'']
   \<and> map score (HeuristicRanker_rank
      [\<lparr> suspect_type = ''FLAG'', suspect_key = ''b'', ts = 0, service = None,
         metadata = [], evidence = None \<rparr>,
       \<lparr> suspect_type = ''DEPLOYMENT'', suspect_key = ''a'', ts = 0,
         service = Some ''payment'', metadata = [], evidence = None \<rparr>]) = [0, 0]"
  by (simp add: HeuristicRanker_rank_def rank_scored_def compute_score_def evidence_of_def
      ev_get_def candidate.extend_def ranked.fields_def Let_def)

text \<open>
  C9. The output of a ranker is a permutation of its input: it has the input's length, and
  dropping \<open>score\<close> and \<open>rank\<close> from its elements gives the input candidates as a
  multiset. This holds of the heuristic ranker, which always returns, and of every result
  of the learned ranker, which returns one whenever the model answers with a probability
  matrix of at least one column and a row for every candidate.
\<close>

theorem rank_is_permutation:
  "mset (map candidate.truncate (HeuristicRanker_rank cs)) = mset cs
   \<and> length (HeuristicRanker_rank cs) = length cs
   \<and> (MLRanker_rank self cs = Inr out \<longrightarrow>
         mset (map candidate.truncate out) = mset cs \<and> length out = length cs)
   \<and> (model self = Some predict_proba
        \<and> predict_proba (map (\<lambda>c. ml_extract_features self (evidence_of c)) cs)
             = Inr (ncols, rows)
        \<and> 0 < ncols \<and> length cs \<le> length rows
       \<longrightarrow> (\<exists>out'. MLRanker_rank self cs = Inr out'))"
proof -
  have h1: "mset (map candidate.truncate (HeuristicRanker_rank cs)) = mset cs"
    using rank_scored_mset [of "map (\<lambda>c. (c, compute_score (evidence_of c))) cs"]
    by (simp add: HeuristicRanker_rank_def comp_def)
  have h2: "length (HeuristicRanker_rank cs) = length cs"
    by (simp add: HeuristicRanker_rank_def rank_scored_length)
  have h3: "mset (map candidate.truncate out) = mset cs \<and> length out = length cs"
    if "MLRanker_rank self cs = Inr out"
  proof -
    from that obtain scored where out: "out = rank_scored scored" and fs: "map fst scored = cs"
      using MLRanker_rank_Inr by blast
    have "length scored = length cs" using fs by (metis length_map)
    then show ?thesis using fs rank_scored_mset [of scored]
      by (simp add: out rank_scored_length)
  qed
  have h4: "\<exists>out'. MLRanker_rank self cs = Inr out'"
    if m: "model self = Some predict_proba"
      and p: "predict_proba (map (\<lambda>c. ml_extract_features self (evidence_of c)) cs)
             = Inr (ncols, rows)"
      and n: "0 < ncols" and l: "length cs \<le> length rows"
  proof -
    have "(if ncols > 1 then 1 else 0) < ncols" using n by simp
    then have "positive_class_scores (ncols, rows)
                 = Inr (map (\<lambda>row. row ! (if ncols > 1 then 1 else 0)) rows)"
      by (simp add: positive_class_scores_def Let_def)
    then obtain scores where s: "positive_class_scores (ncols, rows) = Inr scores"
      and ls: "length scores = length rows"
      by simp
    obtain scored where "attach_scores cs scores = Inr scored"
      using attach_scores_total[of cs scores] l ls by auto
    then show ?thesis using m p s by (simp add: MLRanker_rank_def)
  qed
  show ?thesis using h1 h2 h3 h4 by blast
qed


text \<open>The theorem on the learned ranker and two candidates.\<close>

theorem rank_is_permutation_witness:
  "MLRanker_rank
      \<lparr> model = Some (\<lambda>X. Inr (2, map (\<lambda>row. [1 - hd row, hd row]) X)),
        feature_names = None \<rparr>
      [\<lparr> suspect_type = ''CONFIG'', suspect_key = ''c1'', ts = 0, service = Some ''order'',
         metadata = [], evidence = Some [(''is_before_incident'', 0)] \<rparr>,
       \<lparr> suspect_type = ''DEPLOYMENT'', suspect_key = ''d1'', ts = 0,
         service = Some ''payment'', metadata = [],
         evidence = Some [(''is_before_incident'', 1)] \<rparr>]
    = Inr [\<lparr> suspect_type = ''DEPLOYMENT'', suspect_key = ''d1'', ts = 0,
             service = Some ''payment'', metadata = [],
             evidence = Some [(''is_before_incident'', 1)], score = 1, rank = 1 \<rparr>,
           \<lparr> suspect_type = ''CONFIG'', suspect_key = ''c1'', ts = 0,
             service = Some ''order'', metadata = [],
             evidence = Some [(''is_before_incident'', 0)], score = 0, rank = 2 \<rparr>]
   \<and> mset (map candidate.truncate
        [\<lparr> suspect_type = ''DEPLOYMENT'', suspect_key = ''d1'', ts = 0,
             service = Some ''payment'', metadata = [],
             evidence = Some [(''is_before_incident'', 1)], score = 1, rank = 1 \<rparr>,
           \<lparr> suspect_type = ''CONFIG'', suspect_key = ''c1'', ts = 0,
             service = Some ''order'', metadata = [],
             evidence = Some [(''is_before_incident'', 0)], score = 0, rank = 2 \<rparr>])
     = mset
      [\<lparr> suspect_type = ''CONFIG'', suspect_key = ''c1'', ts = 0, service = Some ''order'',
         metadata = [], evidence = Some [(''is_before_incident'', 0)] \<rparr>,
       \<lparr> suspect_type = ''DEPLOYMENT'', suspect_key = ''d1'', ts = 0,
         service = Some ''payment'', metadata = [],
         evidence = Some [(''is_before_incident'', 1)] \<rparr>]"
proof -
  let ?pp = "\<lambda>X :: real list list. (Inr (2, map (\<lambda>row. [1 - hd row, hd row]) X)
                :: py_error + nat \<times> real list list)"
  let ?m = "\<lparr> model = Some ?pp, feature_names = None \<rparr>"
  let ?cs = "[\<lparr> suspect_type = ''CONFIG'', suspect_key = ''c1'', ts = 0,
         service = Some ''order'',
         metadata = [], evidence = Some [(''is_before_incident'', 0)] \<rparr>,
       \<lparr> suspect_type = ''DEPLOYMENT'', suspect_key = ''d1'', ts = 0,
         service = Some ''payment'', metadata = [],
         evidence = Some [(''is_before_incident'', 1)] \<rparr>]"
  let ?out = "[\<lparr> suspect_type = ''DEPLOYMENT'', suspect_key = ''d1'', ts = 0,
             service = Some ''payment'', metadata = [],
             evidence = Some [(''is_before_incident'', 1)], score = 1, rank = 1 \<rparr>,
           \<lparr> suspect_type = ''CONFIG'', suspect_key = ''c1'', ts = 0,
             service = Some ''order'', metadata = [],
             evidence = Some [(''is_before_incident'', 0)], score = 0, rank = 2 \<rparr>]"
  have run: "MLRanker_rank ?m ?cs = Inr ?out"
    by (simp add: MLRanker_rank_def ml_extract_features_def default_feature_names_def
        evidence_of_def ev_get_def positive_class_scores_def rank_scored_def
        candidate.extend_def ranked.fields_def)
  from rank_is_permutation [of ?cs ?m ?out] run
  have "mset (map candidate.truncate ?out) = mset ?cs" by blast
  with run show ?thesis by blast
qed

section \<open>The grouper's fold\<close>

lemma gap_minutes_int:
  "total_seconds (s - e) / 60 \<le> real_of_int g \<longleftrightarrow> s - e \<le> td_minutes g"
proof -
  have "total_seconds (s - e) / 60 \<le> real_of_int g
          \<longleftrightarrow> real_of_int (s - e) \<le> real_of_int (g * 60000000)"
    by (simp add: total_seconds_def field_simps)
  also have "\<dots> \<longleftrightarrow> s - e \<le> g * 60000000"
    by (simp only: of_int_le_iff)
  finally show ?thesis by (simp add: td_minutes_def)
qed

lemma joins_iff:
  "joins g cur a \<longleftrightarrow> a_start_ts a - i_end_ts cur \<le> td_minutes g \<or> a_service a \<in> services cur"
  unfolding joins_def Let_def by (simp only: gap_minutes_int)

lemma group_step_join:
  assumes "g_current st = Some cur" "joins g cur a"
  shows "group_step u g st a = st\<lparr> g_current := Some (add_to_incident cur a) \<rparr>"
  using assms by (simp add: group_step_def)

lemma group_step_close:
  assumes "g_current st = Some cur" "\<not> joins g cur a"
  shows "group_step u g st a =
           \<lparr> g_incidents = g_incidents st @ [incident.truncate cur],
             g_current = Some (new_incident (u (g_drawn st)) a),
             g_drawn = Suc (g_drawn st) \<rparr>"
  using assms by (simp add: group_step_def)

lemma group_step_current:
  "g_current (group_step u g st a) \<noteq> None"
  by (simp add: group_step_def split: option.split)

lemma group_step_incidents_prefix:
  "\<exists>ys. g_incidents (group_step u g st a) = g_incidents st @ ys"
  by (simp add: group_step_def split: option.split)

lemma group_fold_incidents_prefix:
  "\<exists>ys. g_incidents (foldl (group_step u g) st as) = g_incidents st @ ys"
proof (induction as arbitrary: st)
  case Nil
  then show ?case by simp
next
  case (Cons a as)
  obtain ys where "g_incidents (group_step u g st a) = g_incidents st @ ys"
    using group_step_incidents_prefix by blast
  moreover obtain zs where "g_incidents (foldl (group_step u g) (group_step u g st a) as)
                        = g_incidents (group_step u g st a) @ zs"
    using Cons.IH by blast
  ultimately show ?case by simp
qed

lemma add_to_incident_fields:
  "i_end_ts (add_to_incident cur a) = max (i_end_ts cur) (a_end_ts a)"
  "i_anomaly_ids (add_to_incident cur a) = i_anomaly_ids cur @ [a_id a]"
  "i_id (add_to_incident cur a) = i_id cur"
  "i_start_ts (add_to_incident cur a) = i_start_ts cur"
  "i_status (add_to_incident cur a) = i_status cur"
  by (simp_all add: add_to_incident_def Let_def)

lemma group_fold_open_monotone:
  assumes "g_current st = Some cur"
    and "g_incidents (foldl (group_step u g) st as) = g_incidents st"
  shows "\<exists>cur'. g_current (foldl (group_step u g) st as) = Some cur'
           \<and> i_end_ts cur \<le> i_end_ts cur' \<and> i_id cur' = i_id cur
           \<and> i_start_ts cur' = i_start_ts cur"
  using assms
proof (induction as arbitrary: st cur)
  case Nil
  then show ?case by simp
next
  case (Cons a as)
  let ?st1 = "group_step u g st a"
  obtain ys where ys: "g_incidents ?st1 = g_incidents st @ ys"
    using group_step_incidents_prefix by blast
  obtain zs where zs: "g_incidents (foldl (group_step u g) ?st1 as) = g_incidents ?st1 @ zs"
    using group_fold_incidents_prefix by blast
  from Cons.prems(2) ys zs have e: "ys = []" "zs = []" by simp_all
  have j: "joins g cur a"
  proof (rule ccontr)
    assume "\<not> joins g cur a"
    then have "g_incidents ?st1 = g_incidents st @ [incident.truncate cur]"
      using Cons.prems(1) by (simp add: group_step_close)
    with ys e show False by simp
  qed
  then have st1: "?st1 = st\<lparr> g_current := Some (add_to_incident cur a) \<rparr>"
    using Cons.prems(1) by (rule group_step_join[rotated])
  then have c1: "g_current ?st1 = Some (add_to_incident cur a)" by simp
  have "g_incidents (foldl (group_step u g) ?st1 as) = g_incidents ?st1"
    using zs e by simp
  from Cons.IH[OF c1 this] obtain cur' where
    "g_current (foldl (group_step u g) ?st1 as) = Some cur'"
    "i_end_ts (add_to_incident cur a) \<le> i_end_ts cur'"
    "i_id cur' = i_id (add_to_incident cur a)"
    "i_start_ts cur' = i_start_ts (add_to_incident cur a)"
    by blast
  then show ?case by (simp add: add_to_incident_fields)
qed

lemma add_to_incident_sets:
  "services (add_to_incident cur a) = insert (a_service a) (services cur)"
  "metrics (add_to_incident cur a) = insert (a_metric a) (metrics cur)"
  by (simp_all add: add_to_incident_def Let_def)

lemma new_incident_fields:
  "i_anomaly_ids (new_incident uid a) = [a_id a]"
  "services (new_incident uid a) = {a_service a}"
  "i_end_ts (new_incident uid a) = a_end_ts a"
  "i_start_ts (new_incident uid a) = a_start_ts a"
  by (simp_all add: new_incident_def)

text \<open>In the fold from the initial state, the open incident is made of the anomalies of a
  non-empty final stretch of the list read so far: its ids are theirs, its services are
  exactly their services, and its end is the latest of their ends.\<close>

lemma group_fold_open_members:
  assumes "xs \<noteq> []"
  shows "\<exists>cur pre chunk.
           g_current (foldl (group_step u g) grouper_init xs) = Some cur
           \<and> xs = pre @ chunk \<and> chunk \<noteq> []
           \<and> i_anomaly_ids cur = map a_id chunk
           \<and> services cur = a_service ` set chunk
           \<and> i_end_ts cur = Max (a_end_ts ` set chunk)"
  using assms
proof (induction xs rule: rev_induct)
  case Nil
  then show ?case by simp
next
  case (snoc x xs)
  let ?st = "foldl (group_step u g) grouper_init xs"
  show ?case
  proof (cases "xs = []")
    case True
    then have "g_current (foldl (group_step u g) grouper_init (xs @ [x]))
                 = Some (new_incident (u 0) x)"
      by (simp add: group_step_def grouper_init_def)
    then show ?thesis
      by (intro exI[of _ "new_incident (u 0) x"] exI[of _ xs] exI[of _ "[x]"])
         (simp add: new_incident_fields)
  next
    case False
    from snoc.IH[OF False] obtain cur pre chunk where
      c: "g_current ?st = Some cur" and xs: "xs = pre @ chunk" and ne: "chunk \<noteq> []"
      and ids: "i_anomaly_ids cur = map a_id chunk"
      and sv: "services cur = a_service ` set chunk"
      and en: "i_end_ts cur = Max (a_end_ts ` set chunk)"
      by blast
    show ?thesis
    proof (cases "joins g cur x")
      case True
      then have "g_current (foldl (group_step u g) grouper_init (xs @ [x]))
                   = Some (add_to_incident cur x)"
        using c by (simp add: group_step_join)
      moreover have "Max (a_end_ts ` set (chunk @ [x]))
                       = max (i_end_ts cur) (a_end_ts x)"
        using ne en by (simp add: max.commute)
      ultimately show ?thesis using xs ids sv
        by (intro exI[of _ "add_to_incident cur x"] exI[of _ pre] exI[of _ "chunk @ [x]"])
           (simp add: add_to_incident_fields add_to_incident_sets)
    next
      case False
      then have "g_current (foldl (group_step u g) grouper_init (xs @ [x]))
                   = Some (new_incident (u (g_drawn ?st)) x)"
        using c by (simp add: group_step_close)
      then show ?thesis
        by (intro exI[of _ "new_incident (u (g_drawn ?st)) x"] exI[of _ xs] exI[of _ "[x]"])
           (simp add: new_incident_fields)
    qed
  qed
qed

text \<open>
  C7. One step of the fold, with \<open>cur\<close> the open incident: the anomaly joins it (no
  incident is closed) if and only if its \<open>start_ts\<close> minus the open incident's \<open>end_ts\<close> is
  at most \<open>gap_minutes\<close>, or its service is among the open incident's services. On a join
  the open incident keeps its id and start, gets the anomaly's id appended and its service
  added, and its \<open>end_ts\<close> becomes the maximum of the old one and the anomaly's, so it does
  not decrease; otherwise the open incident is closed and a new one starts from the
  anomaly. Over any run of steps that closes no incident, the open incident is the same
  one and its \<open>end_ts\<close> has not decreased.

  In the fold of \<open>group_anomalies\<close>, after any non-empty list \<open>xs\<close> has been read, the open
  incident is made of the anomalies \<open>members\<close> of a final stretch of \<open>xs\<close>, those that
  seeded it or joined it: its ids are theirs, its services are exactly their services and
  its \<open>end_ts\<close> is the latest of their ends. So the next anomaly joins if and only if it
  starts at most \<open>gap_minutes\<close> after the latest end of the members, or one of the members
  has its service.
\<close>

theorem group_fold_join_rule:
  "(g_current st = Some cur \<longrightarrow>
      (g_incidents (group_step uuid4 gap_minutes st a) = g_incidents st
         \<longleftrightarrow> a_start_ts a - i_end_ts cur \<le> td_minutes gap_minutes
              \<or> a_service a \<in> services cur)
      \<and> (a_start_ts a - i_end_ts cur \<le> td_minutes gap_minutes \<or> a_service a \<in> services cur
           \<longrightarrow> (\<exists>cur'. g_current (group_step uuid4 gap_minutes st a) = Some cur'
                  \<and> i_id cur' = i_id cur \<and> i_start_ts cur' = i_start_ts cur
                  \<and> i_anomaly_ids cur' = i_anomaly_ids cur @ [a_id a]
                  \<and> services cur' = insert (a_service a) (services cur)
                  \<and> i_end_ts cur' = max (i_end_ts cur) (a_end_ts a)
                  \<and> i_end_ts cur \<le> i_end_ts cur'))
      \<and> (\<not> (a_start_ts a - i_end_ts cur \<le> td_minutes gap_minutes
              \<or> a_service a \<in> services cur)
           \<longrightarrow> g_incidents (group_step uuid4 gap_minutes st a)
                 = g_incidents st @ [incident.truncate cur]
               \<and> g_current (group_step uuid4 gap_minutes st a)
                 = Some (new_incident (uuid4 (g_drawn st)) a))
      \<and> (g_incidents (foldl (group_step uuid4 gap_minutes) st as) = g_incidents st
           \<longrightarrow> (\<exists>cur'. g_current (foldl (group_step uuid4 gap_minutes) st as) = Some cur'
                  \<and> i_id cur' = i_id cur \<and> i_end_ts cur \<le> i_end_ts cur')))
   \<and> (xs \<noteq> [] \<longrightarrow>
        (\<exists>open_incident pre members.
            g_current (foldl (group_step uuid4 gap_minutes) grouper_init xs)
              = Some open_incident
            \<and> xs = pre @ members \<and> members \<noteq> []
            \<and> i_anomaly_ids open_incident = map a_id members
            \<and> services open_incident = a_service ` set members
            \<and> i_end_ts open_incident = Max (a_end_ts ` set members)
            \<and> (g_incidents (foldl (group_step uuid4 gap_minutes) grouper_init (xs @ [a]))
                  = g_incidents (foldl (group_step uuid4 gap_minutes) grouper_init xs)
                \<longleftrightarrow> a_start_ts a - Max (a_end_ts ` set members) \<le> td_minutes gap_minutes
                     \<or> a_service a \<in> a_service ` set members)))"
proof (intro conjI)
  show "g_current st = Some cur \<longrightarrow>
      (g_incidents (group_step uuid4 gap_minutes st a) = g_incidents st
         \<longleftrightarrow> a_start_ts a - i_end_ts cur \<le> td_minutes gap_minutes
              \<or> a_service a \<in> services cur)
      \<and> (a_start_ts a - i_end_ts cur \<le> td_minutes gap_minutes \<or> a_service a \<in> services cur
           \<longrightarrow> (\<exists>cur'. g_current (group_step uuid4 gap_minutes st a) = Some cur'
                  \<and> i_id cur' = i_id cur \<and> i_start_ts cur' = i_start_ts cur
                  \<and> i_anomaly_ids cur' = i_anomaly_ids cur @ [a_id a]
                  \<and> services cur' = insert (a_service a) (services cur)
                  \<and> i_end_ts cur' = max (i_end_ts cur) (a_end_ts a)
                  \<and> i_end_ts cur \<le> i_end_ts cur'))
      \<and> (\<not> (a_start_ts a - i_end_ts cur \<le> td_minutes gap_minutes
              \<or> a_service a \<in> services cur)
           \<longrightarrow> g_incidents (group_step uuid4 gap_minutes st a)
                 = g_incidents st @ [incident.truncate cur]
               \<and> g_current (group_step uuid4 gap_minutes st a)
                 = Some (new_incident (uuid4 (g_drawn st)) a))
      \<and> (g_incidents (foldl (group_step uuid4 gap_minutes) st as) = g_incidents st
           \<longrightarrow> (\<exists>cur'. g_current (foldl (group_step uuid4 gap_minutes) st as) = Some cur'
                  \<and> i_id cur' = i_id cur \<and> i_end_ts cur \<le> i_end_ts cur'))"
  proof (intro impI conjI)
    assume c: "g_current st = Some cur"
    show "g_incidents (group_step uuid4 gap_minutes st a) = g_incidents st
           \<longleftrightarrow> a_start_ts a - i_end_ts cur \<le> td_minutes gap_minutes
                \<or> a_service a \<in> services cur"
      using c by (cases "joins gap_minutes cur a")
        (simp_all add: group_step_join group_step_close joins_iff)
  next
    assume c: "g_current st = Some cur"
      and "a_start_ts a - i_end_ts cur \<le> td_minutes gap_minutes \<or> a_service a \<in> services cur"
    then have "joins gap_minutes cur a" by (simp add: joins_iff)
    with c have "g_current (group_step uuid4 gap_minutes st a) = Some (add_to_incident cur a)"
      by (simp add: group_step_join)
    then show "\<exists>cur'. g_current (group_step uuid4 gap_minutes st a) = Some cur'
                    \<and> i_id cur' = i_id cur \<and> i_start_ts cur' = i_start_ts cur
                    \<and> i_anomaly_ids cur' = i_anomaly_ids cur @ [a_id a]
                    \<and> services cur' = insert (a_service a) (services cur)
                    \<and> i_end_ts cur' = max (i_end_ts cur) (a_end_ts a)
                    \<and> i_end_ts cur \<le> i_end_ts cur'"
      by (simp add: add_to_incident_fields add_to_incident_sets)
  next
    assume c: "g_current st = Some cur"
      and n: "\<not> (a_start_ts a - i_end_ts cur \<le> td_minutes gap_minutes
                \<or> a_service a \<in> services cur)"
    then have nj: "\<not> joins gap_minutes cur a" by (simp add: joins_iff)
    show "g_incidents (group_step uuid4 gap_minutes st a)
            = g_incidents st @ [incident.truncate cur]"
      using c nj by (simp add: group_step_close)
    show "g_current (group_step uuid4 gap_minutes st a)
            = Some (new_incident (uuid4 (g_drawn st)) a)"
      using c nj by (simp add: group_step_close)
  next
    assume c: "g_current st = Some cur"
      and "g_incidents (foldl (group_step uuid4 gap_minutes) st as) = g_incidents st"
    from group_fold_open_monotone[OF this]
    show "\<exists>cur'. g_current (foldl (group_step uuid4 gap_minutes) st as) = Some cur'
                    \<and> i_id cur' = i_id cur \<and> i_end_ts cur \<le> i_end_ts cur'"
      by blast
  qed
next
  show "xs \<noteq> [] \<longrightarrow>
        (\<exists>open_incident pre members.
            g_current (foldl (group_step uuid4 gap_minutes) grouper_init xs)
              = Some open_incident
            \<and> xs = pre @ members \<and> members \<noteq> []
            \<and> i_anomaly_ids open_incident = map a_id members
            \<and> services open_incident = a_service ` set members
            \<and> i_end_ts open_incident = Max (a_end_ts ` set members)
            \<and> (g_incidents (foldl (group_step uuid4 gap_minutes) grouper_init (xs @ [a]))
                  = g_incidents (foldl (group_step uuid4 gap_minutes) grouper_init xs)
                \<longleftrightarrow> a_start_ts a - Max (a_end_ts ` set members) \<le> td_minutes gap_minutes
                     \<or> a_service a \<in> a_service ` set members))"
  proof
    assume "xs \<noteq> []"
    let ?st = "foldl (group_step uuid4 gap_minutes) grouper_init xs"
    from group_fold_open_members[OF \<open>xs \<noteq> []\<close>, of uuid4 gap_minutes]
    obtain cur pre chunk where
      c: "g_current ?st = Some cur" and xs: "xs = pre @ chunk" and ne: "chunk \<noteq> []"
      and ids: "i_anomaly_ids cur = map a_id chunk"
      and sv: "services cur = a_service ` set chunk"
      and en: "i_end_ts cur = Max (a_end_ts ` set chunk)"
      by blast
    have "g_incidents (group_step uuid4 gap_minutes ?st a) = g_incidents ?st
           \<longleftrightarrow> a_start_ts a - i_end_ts cur \<le> td_minutes gap_minutes
                \<or> a_service a \<in> services cur"
      using c by (cases "joins gap_minutes cur a")
        (simp_all add: group_step_join group_step_close joins_iff)
    then have "g_incidents (foldl (group_step uuid4 gap_minutes) grouper_init (xs @ [a]))
                  = g_incidents ?st
                \<longleftrightarrow> a_start_ts a - Max (a_end_ts ` set chunk) \<le> td_minutes gap_minutes
                     \<or> a_service a \<in> a_service ` set chunk"
      by (simp add: sv en)
    with c xs ne ids sv en
    show "\<exists>open_incident pre members.
            g_current ?st = Some open_incident
            \<and> xs = pre @ members \<and> members \<noteq> []
            \<and> i_anomaly_ids open_incident = map a_id members
            \<and> services open_incident = a_service ` set members
            \<and> i_end_ts open_incident = Max (a_end_ts ` set members)
            \<and> (g_incidents (foldl (group_step uuid4 gap_minutes) grouper_init (xs @ [a]))
                  = g_incidents ?st
                \<longleftrightarrow> a_start_ts a - Max (a_end_ts ` set members) \<le> td_minutes gap_minutes
                     \<or> a_service a \<in> a_service ` set members)"
      by (intro exI[of _ cur] exI[of _ pre] exI[of _ chunk]) simp
  qed
qed

text \<open>The theorem on three anomalies: one on payment that ends at minute 10, one on
  order that starts at minute 18 and joins by the gap, and one on order that starts at
  minute 50 and joins because order is already in the incident.\<close>

theorem group_fold_join_rule_witness:
  "g_incidents (foldl (group_step (\<lambda>n. ''i0'') 10) grouper_init
      ([\<lparr> a_id = ''a0'', a_start_ts = 0, a_end_ts = 600000000,
          a_service = ''payment'', a_metric = ''error_rate'', a_score = 6 \<rparr>,
        \<lparr> a_id = ''a1'', a_start_ts = 1080000000, a_end_ts = 1200000000,
          a_service = ''order'', a_metric = ''error_rate'', a_score = 4 \<rparr>]
       @ [\<lparr> a_id = ''a2'', a_start_ts = 3000000000, a_end_ts = 3100000000,
            a_service = ''order'', a_metric = ''qps'', a_score = 5 \<rparr>]))
   = g_incidents (foldl (group_step (\<lambda>n. ''i0'') 10) grouper_init
      [\<lparr> a_id = ''a0'', a_start_ts = 0, a_end_ts = 600000000,
          a_service = ''payment'', a_metric = ''error_rate'', a_score = 6 \<rparr>,
        \<lparr> a_id = ''a1'', a_start_ts = 1080000000, a_end_ts = 1200000000,
          a_service = ''order'', a_metric = ''error_rate'', a_score = 4 \<rparr>])
   \<and> map i_anomaly_ids (group_anomalies (\<lambda>n. ''i0'') 10
      [\<lparr> a_id = ''a0'', a_start_ts = 0, a_end_ts = 600000000,
          a_service = ''payment'', a_metric = ''error_rate'', a_score = 6 \<rparr>,
        \<lparr> a_id = ''a1'', a_start_ts = 1080000000, a_end_ts = 1200000000,
          a_service = ''order'', a_metric = ''error_rate'', a_score = 4 \<rparr>,
        \<lparr> a_id = ''a2'', a_start_ts = 3000000000, a_end_ts = 3100000000,
            a_service = ''order'', a_metric = ''qps'', a_score = 5 \<rparr>])
     = [[''a0'', ''a1'', ''a2'']]
   \<and> map_option i_end_ts (g_current (group_step (\<lambda>n. ''i0'') 10
      \<lparr> g_incidents = [],
        g_current = Some \<lparr> i_id = ''i0'', i_start_ts = 0, i_end_ts = 600000000,
                           i_title = ''Incident in payment'', i_status = ''OPEN'',
                           i_anomaly_ids = [''a0''], services = {''payment''},
                           metrics = {''error_rate''} \<rparr>,
        g_drawn = 1 \<rparr>
      \<lparr> a_id = ''a1'', a_start_ts = 1080000000, a_end_ts = 1200000000,
        a_service = ''order'', a_metric = ''error_rate'', a_score = 4 \<rparr>)) = Some 1200000000"
proof -
  let ?u = "\<lambda>n :: nat. ''i0''"
  let ?a0 = "\<lparr> a_id = ''a0'', a_start_ts = 0, a_end_ts = 600000000,
          a_service = ''payment'', a_metric = ''error_rate'', a_score = 6 \<rparr>"
  let ?a1 = "\<lparr> a_id = ''a1'', a_start_ts = 1080000000, a_end_ts = 1200000000,
          a_service = ''order'', a_metric = ''error_rate'', a_score = 4 \<rparr>"
  let ?a2 = "\<lparr> a_id = ''a2'', a_start_ts = 3000000000, a_end_ts = 3100000000,
            a_service = ''order'', a_metric = ''qps'', a_score = 5 \<rparr>"
  let ?xs = "[?a0, ?a1]"
  let ?cur = "\<lparr> i_id = ''i0'', i_start_ts = 0, i_end_ts = 600000000,
                           i_title = ''Incident in payment'', i_status = ''OPEN'',
                           i_anomaly_ids = [''a0''], services = {''payment''},
                           metrics = {''error_rate''} \<rparr>"
  let ?st = "\<lparr> g_incidents = [], g_current = Some ?cur, g_drawn = 1 \<rparr>"
  note inst = group_fold_join_rule [of ?st ?cur ?u 10 ?a1 "[]" ?xs]
  note inst2 = group_fold_join_rule [of ?st ?cur ?u 10 ?a2 "[]" ?xs]
  have c: "g_current ?st = Some ?cur" by simp
  have j: "a_start_ts ?a1 - i_end_ts ?cur \<le> td_minutes 10 \<or> a_service ?a1 \<in> services ?cur"
    by (simp add: td_minutes_def)
  from inst c j
  have "\<exists>cur'. g_current (group_step ?u 10 ?st ?a1) = Some cur'
           \<and> i_end_ts cur' = max (i_end_ts ?cur) (a_end_ts ?a1)"
    by blast
  then have step: "map_option i_end_ts (g_current (group_step ?u 10 ?st ?a1)) = Some 1200000000"
    by auto
  have ne: "?xs \<noteq> []" by simp
  from inst2 ne obtain open_incident pre members where
    o: "g_current (foldl (group_step ?u 10) grouper_init ?xs) = Some open_incident"
    and xs: "?xs = pre @ members"
    and ids: "i_anomaly_ids open_incident = map a_id members"
    and iff: "g_incidents (foldl (group_step ?u 10) grouper_init (?xs @ [?a2]))
                  = g_incidents (foldl (group_step ?u 10) grouper_init ?xs)
                \<longleftrightarrow> a_start_ts ?a2 - Max (a_end_ts ` set members) \<le> td_minutes 10
                     \<or> a_service ?a2 \<in> a_service ` set members"
    by blast
  have "map_option i_anomaly_ids (g_current (foldl (group_step ?u 10) grouper_init ?xs))
          = Some [''a0'', ''a1'']"
    by (simp add: group_step_def grouper_init_def joins_def new_incident_def
        add_to_incident_def total_seconds_def Let_def)
  with o ids have "map a_id members = [''a0'', ''a1'']" by simp
  then have "length (map a_id members) = 2" by simp
  then have lm: "length members = 2" by simp
  have "length ?xs = length pre + length members" by (subst xs) simp
  with lm have "pre = []" by simp
  with xs have "members = ?xs" by simp
  then have "a_service ?a2 \<in> a_service ` set members" by simp
  with iff have fold: "g_incidents (foldl (group_step ?u 10) grouper_init (?xs @ [?a2]))
                  = g_incidents (foldl (group_step ?u 10) grouper_init ?xs)"
    by blast
  have all: "map i_anomaly_ids (group_anomalies ?u 10 [?a0, ?a1, ?a2])
               = [[''a0'', ''a1'', ''a2'']]"
    by (simp add: group_anomalies_def group_step_def grouper_init_def grouper_result_def
        joins_def new_incident_def add_to_incident_def total_seconds_def
        incident.truncate_def Let_def)
  show ?thesis by (intro conjI) (rule fold, rule all, rule step)
qed

lemma grouper_result_step:
  "(\<exists>cur. g_current st = Some cur \<and> joins g cur x
          \<and> grouper_result st = g_incidents st @ [incident.truncate cur]
          \<and> grouper_result (group_step u g st x)
              = g_incidents st @ [incident.truncate (add_to_incident cur x)])
   \<or> (\<exists>uid. grouper_result (group_step u g st x)
              = grouper_result st @ [incident.truncate (new_incident uid x)])"
proof (cases "g_current st")
  case None
  then have "grouper_result (group_step u g st x)
              = grouper_result st @ [incident.truncate (new_incident (u (g_drawn st)) x)]"
    by (simp add: group_step_def grouper_result_def)
  then show ?thesis by blast
next
  case (Some cur)
  show ?thesis
  proof (cases "joins g cur x")
    case True
    then show ?thesis using Some by (simp add: group_step_def grouper_result_def)
  next
    case False
    then have "grouper_result (group_step u g st x)
              = grouper_result st @ [incident.truncate (new_incident (u (g_drawn st)) x)]"
      using Some by (simp add: group_step_def grouper_result_def)
    then show ?thesis by blast
  qed
qed

lemma incident_of_chunk_new:
  "incident_of_chunk (incident.truncate (new_incident uid x)) [x]"
  by (simp add: incident_of_chunk_def new_incident_def incident.truncate_def)

lemma incident_of_chunk_add:
  assumes "incident_of_chunk (incident.truncate cur) c"
    and "a_start_ts (hd c) \<le> a_start_ts x"
  shows "incident_of_chunk (incident.truncate (add_to_incident cur x)) (c @ [x])"
  using assms
  by (auto simp: incident_of_chunk_def incident.truncate_def add_to_incident_fields)

lemma group_fold_chunks:
  assumes "sorted (map a_start_ts xs)"
  shows "\<exists>chunks. concat chunks = xs
           \<and> list_all2 incident_of_chunk
                (grouper_result (foldl (group_step u g) grouper_init xs)) chunks"
  using assms
proof (induction xs rule: rev_induct)
  case Nil
  show ?case by (simp add: grouper_init_def grouper_result_def)
next
  case (snoc x xs)
  let ?st = "foldl (group_step u g) grouper_init xs"
  from snoc.prems have sx: "sorted (map a_start_ts xs)"
    and le: "\<forall>y \<in> set xs. a_start_ts y \<le> a_start_ts x"
    by (auto simp: sorted_append)
  from snoc.IH[OF sx] obtain chunks where cc: "concat chunks = xs"
    and all: "list_all2 incident_of_chunk (grouper_result ?st) chunks"
    by blast
  from grouper_result_step[of ?st g x u]
  show ?case
  proof
    assume "\<exists>cur. g_current ?st = Some cur \<and> joins g cur x
          \<and> grouper_result ?st = g_incidents ?st @ [incident.truncate cur]
          \<and> grouper_result (group_step u g ?st x)
              = g_incidents ?st @ [incident.truncate (add_to_incident cur x)]"
    then obtain cur where r: "grouper_result ?st = g_incidents ?st @ [incident.truncate cur]"
      and r': "grouper_result (group_step u g ?st x)
              = g_incidents ?st @ [incident.truncate (add_to_incident cur x)]"
      by blast
    from all r obtain cs c where ch: "chunks = cs @ [c]"
      and a1: "list_all2 incident_of_chunk (g_incidents ?st) cs"
      and a2: "incident_of_chunk (incident.truncate cur) c"
      by (auto simp: list_all2_append1 list_all2_Cons1)
    have "c \<noteq> []" using a2 by (simp add: incident_of_chunk_def)
    then have "hd c \<in> set xs" using cc ch by auto
    then have "a_start_ts (hd c) \<le> a_start_ts x" using le by blast
    then have "incident_of_chunk (incident.truncate (add_to_incident cur x)) (c @ [x])"
      using a2 by (intro incident_of_chunk_add)
    then have "list_all2 incident_of_chunk (grouper_result (group_step u g ?st x))
                 (cs @ [c @ [x]])"
      using a1 r' by (simp add: list_all2_appendI)
    moreover have "concat (cs @ [c @ [x]]) = xs @ [x]" using cc ch by simp
    ultimately show ?thesis by (intro exI[of _ "cs @ [c @ [x]]"]) simp
  next
    assume "\<exists>uid. grouper_result (group_step u g ?st x)
              = grouper_result ?st @ [incident.truncate (new_incident uid x)]"
    then obtain uid where r': "grouper_result (group_step u g ?st x)
              = grouper_result ?st @ [incident.truncate (new_incident uid x)]"
      by blast
    have "list_all2 incident_of_chunk (grouper_result (group_step u g ?st x)) (chunks @ [[x]])"
      using all r' by (simp add: list_all2_appendI incident_of_chunk_new)
    moreover have "concat (chunks @ [[x]]) = xs @ [x]" using cc by simp
    ultimately show ?thesis by (intro exI[of _ "chunks @ [[x]]"]) simp
  qed
qed

lemma group_anomalies_fold:
  "group_anomalies u g anoms
     = grouper_result (foldl (group_step u g) grouper_init (sort_key a_start_ts anoms))"
  by (simp add: group_anomalies_def grouper_init_def grouper_result_def)

lemma group_anomalies_chunks:
  "\<exists>chunks. concat chunks = sort_key a_start_ts anoms
     \<and> list_all2 incident_of_chunk (group_anomalies u g anoms) chunks"
  unfolding group_anomalies_fold
  by (rule group_fold_chunks) (rule sorted_sort_key)

lemma distinct_concat_index:
  assumes "distinct (concat xss)" "i < length xss" "j < length xss"
    "x \<in> set (xss ! i)" "x \<in> set (xss ! j)"
  shows "i = j"
  using assms
proof (induction xss arbitrary: i j)
  case Nil
  then show ?case by simp
next
  case (Cons xs xss)
  have d: "distinct (concat xss)" and dis: "set xs \<inter> set (concat xss) = {}"
    using Cons.prems(1) by auto
  have mem: "k < length xss \<Longrightarrow> x \<in> set (xss ! k) \<Longrightarrow> x \<in> set (concat xss)" for k
    by (auto intro: nth_mem)
  show ?case
  proof (cases i)
    case 0
    show ?thesis
    proof (cases j)
      case 0
      with \<open>i = 0\<close> show ?thesis by simp
    next
      case (Suc j')
      with Cons.prems 0 have "x \<in> set xs" "x \<in> set (concat xss)" using mem by auto
      with dis show ?thesis by blast
    qed
  next
    case (Suc i')
    show ?thesis
    proof (cases j)
      case 0
      with Cons.prems Suc have "x \<in> set xs" "x \<in> set (concat xss)" using mem by auto
      with dis show ?thesis by blast
    next
      case (Suc j')
      with Cons.prems \<open>i = Suc i'\<close> Cons.IH[OF d, of i' j'] show ?thesis by simp
    qed
  qed
qed


text \<open>
  C10. The incidents that \<open>group_anomalies\<close> returns partition the input: every returned
  incident has at least one anomaly id, all of them ids of the input, and status OPEN, and
  the incidents' id lists, one after the other, are the ids of the input sorted by
  \<open>start_ts\<close>. When the anomalies have distinct ids (they are primary keys), every
  anomaly id is in the \<open>anomaly_ids\<close> of exactly one returned incident, and an incident's
  \<open>start_ts\<close> is the least \<open>start_ts\<close> of its member anomalies.
\<close>

theorem group_anomalies_partition:
  "(\<forall>inc \<in> set (group_anomalies uuid4 gap_minutes anoms).
      i_anomaly_ids inc \<noteq> [] \<and> i_status inc = ''OPEN''
      \<and> set (i_anomaly_ids inc) \<subseteq> a_id ` set anoms)
   \<and> concat (map i_anomaly_ids (group_anomalies uuid4 gap_minutes anoms))
       = map a_id (sort_key a_start_ts anoms)
   \<and> (distinct (map a_id anoms) \<longrightarrow>
        (\<forall>a \<in> set anoms.
            \<exists>!k. k < length (group_anomalies uuid4 gap_minutes anoms)
                  \<and> a_id a \<in> set (i_anomaly_ids (group_anomalies uuid4 gap_minutes anoms ! k)))
        \<and> (\<forall>inc \<in> set (group_anomalies uuid4 gap_minutes anoms).
              i_start_ts inc
                = Min (a_start_ts ` {a \<in> set anoms. a_id a \<in> set (i_anomaly_ids inc)})))"
proof -
  let ?R = "group_anomalies uuid4 gap_minutes anoms"
  let ?S = "sort_key a_start_ts anoms"
  obtain chunks where cc: "concat chunks = ?S"
    and all: "list_all2 incident_of_chunk ?R chunks"
    using group_anomalies_chunks by blast
  have len: "length ?R = length chunks" using all by (rule list_all2_lengthD)
  have nth: "incident_of_chunk (?R ! k) (chunks ! k)" if "k < length ?R" for k
    using all that by (rule list_all2_nthD)
  have setS: "set ?S = set anoms" by simp
  have sub: "set (chunks ! k) \<subseteq> set anoms" if "k < length chunks" for k
  proof -
    have "chunks ! k \<in> set chunks" using that by simp
    then have "set (chunks ! k) \<subseteq> set (concat chunks)" by auto
    then show ?thesis using cc setS by simp
  qed
  have ids: "map i_anomaly_ids ?R = map (map a_id) chunks"
    using len nth by (intro nth_equalityI) (simp_all add: incident_of_chunk_def)
  have conc: "concat (map i_anomaly_ids ?R) = map a_id ?S"
    by (simp add: ids cc map_concat [symmetric])
  have chunk_of: "\<exists>k < length ?R. inc = ?R ! k \<and> incident_of_chunk inc (chunks ! k)
                    \<and> set (chunks ! k) \<subseteq> set anoms"
    if "inc \<in> set ?R" for inc
  proof -
    from that obtain k where k: "k < length ?R" "inc = ?R ! k"
      by (metis in_set_conv_nth)
    then show ?thesis using nth[of k] sub[of k] len by auto
  qed
  have p0: "i_anomaly_ids inc \<noteq> [] \<and> i_status inc = ''OPEN''
            \<and> set (i_anomaly_ids inc) \<subseteq> a_id ` set anoms"
    if "inc \<in> set ?R" for inc
  proof -
    from chunk_of[OF that] obtain k where ic: "incident_of_chunk inc (chunks ! k)"
      and cs: "set (chunks ! k) \<subseteq> set anoms" by blast
    then show ?thesis by (auto simp: incident_of_chunk_def)
  qed
  have p1: "\<exists>!k. k < length ?R \<and> a_id a \<in> set (i_anomaly_ids (?R ! k))"
    if d: "distinct (map a_id anoms)" and a: "a \<in> set anoms" for a
  proof -
    have "mset (map a_id ?S) = mset (map a_id anoms)" by simp
    then have "distinct (map a_id ?S)" using d by (metis mset_eq_imp_distinct_iff)
    then have dc: "distinct (concat (map i_anomaly_ids ?R))" by (simp only: conc)
    have "a \<in> set (concat chunks)" using a cc setS by simp
    then obtain c where "c \<in> set chunks" "a \<in> set c" by auto
    then obtain k where k: "k < length chunks" "a \<in> set (chunks ! k)"
      by (metis in_set_conv_nth)
    then have "i_anomaly_ids (?R ! k) = map a_id (chunks ! k)"
      using nth[of k] len by (simp add: incident_of_chunk_def)
    then have ex: "k < length ?R \<and> a_id a \<in> set (i_anomaly_ids (?R ! k))"
      using k len by simp
    have uniq: "i = j" if "i < length ?R \<and> a_id a \<in> set (i_anomaly_ids (?R ! i))"
      and "j < length ?R \<and> a_id a \<in> set (i_anomaly_ids (?R ! j))" for i j
      using distinct_concat_index[OF dc, of i j "a_id a"] that by simp
    show ?thesis using ex uniq by blast
  qed
  have p2: "i_start_ts inc
                = Min (a_start_ts ` {a \<in> set anoms. a_id a \<in> set (i_anomaly_ids inc)})"
    if d: "distinct (map a_id anoms)" and "inc \<in> set ?R" for inc
  proof -
    have inj: "inj_on a_id (set anoms)" using d by (simp add: distinct_map)
    from chunk_of[OF that(2)] obtain k where ic: "incident_of_chunk inc (chunks ! k)"
      and cs: "set (chunks ! k) \<subseteq> set anoms" by blast
    let ?c = "chunks ! k"
    have ne: "?c \<noteq> []" and idc: "i_anomaly_ids inc = map a_id ?c"
      and start: "i_start_ts inc = a_start_ts (hd ?c)"
      and low: "\<forall>x \<in> set ?c. a_start_ts (hd ?c) \<le> a_start_ts x"
      using ic by (simp_all add: incident_of_chunk_def)
    have mem: "{a \<in> set anoms. a_id a \<in> set (i_anomaly_ids inc)} = set ?c"
    proof
      show "{a \<in> set anoms. a_id a \<in> set (i_anomaly_ids inc)} \<subseteq> set ?c"
      proof
        fix a assume "a \<in> {a \<in> set anoms. a_id a \<in> set (i_anomaly_ids inc)}"
        then have a: "a \<in> set anoms" and "a_id a \<in> a_id ` set ?c" by (simp_all add: idc)
        then obtain b where b: "b \<in> set ?c" "a_id a = a_id b" by auto
        then have "a = b" using inj a cs by (auto dest: inj_onD)
        with b show "a \<in> set ?c" by simp
      qed
      show "set ?c \<subseteq> {a \<in> set anoms. a_id a \<in> set (i_anomaly_ids inc)}"
        using cs by (auto simp: idc)
    qed
    have "Min (a_start_ts ` set ?c) = a_start_ts (hd ?c)"
    proof (rule Min_eqI)
      show "finite (a_start_ts ` set ?c)" by simp
      show "\<And>y. y \<in> a_start_ts ` set ?c \<Longrightarrow> a_start_ts (hd ?c) \<le> y" using low by auto
      show "a_start_ts (hd ?c) \<in> a_start_ts ` set ?c" using ne by simp
    qed
    then show ?thesis by (simp add: mem start)
  qed
  show ?thesis using p0 p1 p2 conc by blast
qed

text \<open>The theorem on two anomalies more than \<open>gap_minutes\<close> apart on different
  services, given latest first.\<close>

theorem group_anomalies_partition_witness:
  "map i_anomaly_ids (group_anomalies (\<lambda>n. if n = 0 then ''i0'' else ''i1'') 10
      [\<lparr> a_id = ''a2'', a_start_ts = 2000000000, a_end_ts = 2300000000,
         a_service = ''order'', a_metric = ''qps'', a_score = 4 \<rparr>,
       \<lparr> a_id = ''a1'', a_start_ts = 0, a_end_ts = 600000000,
         a_service = ''payment'', a_metric = ''error_rate'', a_score = 6 \<rparr>])
     = [[''a1''], [''a2'']]
   \<and> concat (map i_anomaly_ids (group_anomalies (\<lambda>n. if n = 0 then ''i0'' else ''i1'') 10
      [\<lparr> a_id = ''a2'', a_start_ts = 2000000000, a_end_ts = 2300000000,
         a_service = ''order'', a_metric = ''qps'', a_score = 4 \<rparr>,
       \<lparr> a_id = ''a1'', a_start_ts = 0, a_end_ts = 600000000,
         a_service = ''payment'', a_metric = ''error_rate'', a_score = 6 \<rparr>]))
     = [''a1'', ''a2'']
   \<and> map i_start_ts (group_anomalies (\<lambda>n. if n = 0 then ''i0'' else ''i1'') 10
      [\<lparr> a_id = ''a2'', a_start_ts = 2000000000, a_end_ts = 2300000000,
         a_service = ''order'', a_metric = ''qps'', a_score = 4 \<rparr>,
       \<lparr> a_id = ''a1'', a_start_ts = 0, a_end_ts = 600000000,
         a_service = ''payment'', a_metric = ''error_rate'', a_score = 6 \<rparr>])
     = [0, 2000000000]"
proof -
  let ?as = "[\<lparr> a_id = ''a2'', a_start_ts = 2000000000, a_end_ts = 2300000000,
         a_service = ''order'', a_metric = ''qps'', a_score = 4 \<rparr>,
       \<lparr> a_id = ''a1'', a_start_ts = 0, a_end_ts = 600000000,
         a_service = ''payment'', a_metric = ''error_rate'', a_score = 6 \<rparr>]"
  let ?u = "\<lambda>n :: nat. if n = 0 then ''i0'' else ''i1''"
  have d: "distinct (map a_id ?as)" by simp
  have run: "group_anomalies ?u 10 ?as
     = [\<lparr> i_id = ''i0'', i_start_ts = 0, i_end_ts = 600000000,
          i_title = ''Incident in payment'', i_status = ''OPEN'', i_anomaly_ids = [''a1''] \<rparr>,
        \<lparr> i_id = ''i1'', i_start_ts = 2000000000, i_end_ts = 2300000000,
          i_title = ''Incident in order'', i_status = ''OPEN'', i_anomaly_ids = [''a2''] \<rparr>]"
    by (simp add: group_anomalies_def group_step_def grouper_init_def grouper_result_def
        joins_def new_incident_def total_seconds_def incident.truncate_def Let_def)
  from group_anomalies_partition [of ?u 10 ?as] d
  have "concat (map i_anomaly_ids (group_anomalies ?u 10 ?as))
          = map a_id (sort_key a_start_ts ?as)"
    and "\<forall>inc \<in> set (group_anomalies ?u 10 ?as).
              i_start_ts inc
                = Min (a_start_ts ` {a \<in> set ?as. a_id a \<in> set (i_anomaly_ids inc)})"
    by blast+
  then have "concat (map i_anomaly_ids (group_anomalies ?u 10 ?as)) = [''a1'', ''a2'']"
    by simp
  then show ?thesis by (simp add: run)
qed

end
